theory Spec2Isabelle
  imports Main
begin

section \<open>Data model of the diff viewer\<close>

text \<open>
  The component \<^verbatim>\<open>GitDiffViewer.tsx\<close> keeps a parsed diff as an array of
  \<^verbatim>\<open>DiffFile\<close> objects, each holding an array of \<^verbatim>\<open>DiffHunk\<close> objects.
  Both interfaces have fields \<^verbatim>\<open>id\<close>, \<^verbatim>\<open>header\<close> and \<^verbatim>\<open>selected\<close>; the field names
  below carry the name of the interface as a suffix to keep them apart.

  A JavaScript string is modelled as a \<^typ>\<open>string\<close>, read as the UTF-8 bytes of the
  text. Every string operation of the code that is modelled here (splitting on line feed,
  \<^verbatim>\<open>startsWith\<close> with an ASCII prefix, concatenation, the two regular expressions)
  gives the same result on code units and on UTF-8 bytes.

  While the parser runs, a file's \<^verbatim>\<open>hunks\<close> array holds references to hunk objects
  that are still being mutated through the variable \<^verbatim>\<open>currentHunk\<close>. The record of
  files is therefore polymorphic in what the \<^verbatim>\<open>hunks\<close> array holds: addresses
  during the scan, hunk values in the finished document.
\<close>

record DiffHunk =
  id_hunk :: string
  header_hunk :: string
  lines_hunk :: "string list"
  selected_hunk :: bool

record 'h DiffFile =
  id_file :: string
  header_file :: string
  path :: string
  hunks :: "'h list"
  selected_file :: bool

type_synonym Document = "DiffHunk DiffFile list"

subsection \<open>Strings\<close>

definition LF :: char where
  "LF = CHR 0x0A"

definition startsWith :: "string \<Rightarrow> string \<Rightarrow> bool" where
  "startsWith s p = (take (length p) s = p)"

text \<open>\<^verbatim>\<open>text.split('\n')\<close>: the pieces between line feeds; the empty text gives one empty piece
  and a text that ends in a line feed gives a last piece that is empty. The result is never
  empty, so the first case of the inner \<open>case\<close> does not arise.\<close>

fun split_lf :: "string \<Rightarrow> string list" where
  "split_lf [] = [[]]"
| "split_lf (c # cs) =
     (if c = LF then [] # split_lf cs
      else (case split_lf cs of [] \<Rightarrow> [[c]] | l # ls \<Rightarrow> (c # l) # ls))"

text \<open>The decimal numeral that a template literal \<^verbatim>\<open>`${n}`\<close> prints for a counter.\<close>

definition digit_char :: "nat \<Rightarrow> char" where
  "digit_char d = ''0123456789'' ! d"

function string_of_nat :: "nat \<Rightarrow> string" where
  "string_of_nat n =
     (if n < 10 then [digit_char n] else string_of_nat (n div 10) @ [digit_char (n mod 10)])"
  by pat_completeness auto
termination
  by (relation "measure id") auto

declare string_of_nat.simps [simp del]

subsection \<open>The two regular expressions\<close>

text \<open>
  The code matches two regular expressions with \<^verbatim>\<open>String.prototype.match\<close>:
  \<^verbatim>\<open>/diff --git a\/(.*) b\/(.*)/\<close> and \<^verbatim>\<open>/@@ -(\d+)(?:,\d+)? \+(\d+)(?:,\d+)? @@/\<close>.
  Both are sequences of literals, greedy repetitions of a character class (capturing or not)
  and optional non-capturing groups. The matcher below is the backtracking matcher of the
  language restricted to these forms: a repetition first takes as many characters as it can
  and gives them back one at a time, an optional group is first tried and then skipped, and
  an unanchored search tries every start position from the left.

  The class \<^verbatim>\<open>.\<close> matches any character but a line terminator (LF, CR, U+2028,
  U+2029; the last two are the byte sequences E2 80 A8 and E2 80 A9); \<^verbatim>\<open>\d\<close> matches
  the ten ASCII digits.
\<close>

datatype char_class = Dot | Digit

datatype regex_item =
  Lit string
| Rep char_class nat bool
| Opt "regex_item list"

definition lineTerminatorAt :: "string \<Rightarrow> bool" where
  "lineTerminatorAt s =
     (startsWith s [CHR 0x0A] \<or> startsWith s [CHR 0x0D] \<or>
      startsWith s [CHR 0xE2, CHR 0x80, CHR 0xA8] \<or> startsWith s [CHR 0xE2, CHR 0x80, CHR 0xA9])"

definition isDigit :: "char \<Rightarrow> bool" where
  "isDigit c = (c \<in> set ''0123456789'')"

text \<open>How many characters of the class stand at the front of the string.\<close>

fun class_run :: "char_class \<Rightarrow> string \<Rightarrow> nat" where
  "class_run cl [] = 0"
| "class_run Dot (c # cs) = (if lineTerminatorAt (c # cs) then 0 else Suc (class_run Dot cs))"
| "class_run Digit (c # cs) = (if isDigit c then Suc (class_run Digit cs) else 0)"

fun first_some :: "'a option list \<Rightarrow> 'a option" where
  "first_some [] = None"
| "first_some (None # xs) = first_some xs"
| "first_some (Some y # xs) = Some y"

text \<open>\<open>regex_match items s caps\<close> matches the items at the front of \<open>s\<close> and returns the
  captured groups, \<open>caps\<close> being those captured so far. \<open>Rep cl lo cap\<close> is the class
  repeated at least \<open>lo\<close> times, captured when \<open>cap\<close> holds.\<close>

fun regex_match :: "regex_item list \<Rightarrow> string \<Rightarrow> string list \<Rightarrow> string list option" where
  "regex_match [] s caps = Some caps"
| "regex_match (Lit p # r) s caps =
     (if startsWith s p then regex_match r (drop (length p) s) caps else None)"
| "regex_match (Rep cl lo cap # r) s caps =
     first_some (map (\<lambda>k. regex_match r (drop k s) (if cap then caps @ [take k s] else caps))
                     (rev [lo ..< Suc (class_run cl s)]))"
| "regex_match (Opt g # r) s caps =
     (case regex_match (g @ r) s caps of Some y \<Rightarrow> Some y | None \<Rightarrow> regex_match r s caps)"

fun regex_search :: "regex_item list \<Rightarrow> string \<Rightarrow> string list option" where
  "regex_search rx [] = regex_match rx [] []"
| "regex_search rx (c # cs) =
     (case regex_match rx (c # cs) [] of Some caps \<Rightarrow> Some caps | None \<Rightarrow> regex_search rx cs)"

definition diff_git_regex :: "regex_item list" where
  "diff_git_regex = [Lit ''diff --git a/'', Rep Dot 0 True, Lit '' b/'', Rep Dot 0 True]"

definition hunk_header_regex :: "regex_item list" where
  "hunk_header_regex =
     [Lit ''@@ -'', Rep Digit 1 True, Opt [Lit '','', Rep Digit 1 False],
      Lit '' +'', Rep Digit 1 True, Opt [Lit '','', Rep Digit 1 False], Lit '' @@'']"

text \<open>\<^verbatim>\<open>extractFilePath\<close>: the second group of the match, or \<^verbatim>\<open>'unknown'\<close>.\<close>

definition extractFilePath :: "string \<Rightarrow> string" where
  "extractFilePath line =
     (case regex_search diff_git_regex line of
        Some caps \<Rightarrow> (case caps of [g1, g2] \<Rightarrow> g2 | _ \<Rightarrow> ''unknown'')
      | None \<Rightarrow> ''unknown'')"

section \<open>The parser\<close>

text \<open>
  \<^verbatim>\<open>parseDiff\<close> scans the lines once with four local variables and the result array. The
  hunk objects live in a store, addressed by the value the counter \<^verbatim>\<open>hunkId\<close> had when
  the object was made: \<^verbatim>\<open>currentHunk\<close> and the \<^verbatim>\<open>hunks\<close> arrays hold addresses, so a line
  pushed through \<^verbatim>\<open>currentHunk\<close> reaches the hunk wherever it is referenced. The code
  never sets \<^verbatim>\<open>currentHunk\<close> back to \<^verbatim>\<open>null\<close>; a new file leaves it as it is.
\<close>

record parse_state =
  diffFiles :: "nat DiffFile list"
  currentFile :: "nat DiffFile option"
  currentHunk :: "nat option"
  fileId :: nat
  hunkId :: nat
  store :: "nat \<rightharpoonup> DiffHunk"

definition parse_init :: parse_state where
  "parse_init =
     \<lparr>diffFiles = [], currentFile = None, currentHunk = None, fileId = 0, hunkId = 0,
      store = Map.empty\<rparr>"

text \<open>\<^verbatim>\<open>if (currentFile) diffFiles.push(currentFile)\<close>, used at a file header and after the scan.\<close>

definition push_current :: "parse_state \<Rightarrow> nat DiffFile list" where
  "push_current st =
     (case currentFile st of None \<Rightarrow> diffFiles st | Some f \<Rightarrow> diffFiles st @ [f])"

text \<open>The body of \<^verbatim>\<open>lines.forEach\<close>.\<close>

definition parse_line :: "string \<Rightarrow> parse_state \<Rightarrow> parse_state" where
  "parse_line line st =
     (if startsWith line ''diff --git'' then
        st\<lparr>diffFiles := push_current st,
           fileId := fileId st + 1,
           currentFile := Some
             \<lparr>id_file = ''file-'' @ string_of_nat (fileId st + 1),
              header_file = line,
              path = extractFilePath line,
              hunks = [],
              selected_file = True\<rparr>\<rparr>
      else if startsWith line ''---'' \<or> startsWith line ''+++'' then
        (case currentFile st of
           None \<Rightarrow> st
         | Some f \<Rightarrow> st\<lparr>currentFile := Some (f\<lparr>header_file := header_file f @ [LF] @ line\<rparr>)\<rparr>)
      else if startsWith line ''@@'' then
        (case currentFile st of
           None \<Rightarrow> st
         | Some f \<Rightarrow>
             st\<lparr>hunkId := hunkId st + 1,
                currentHunk := Some (hunkId st + 1),
                store := (store st)(hunkId st + 1 \<mapsto>
                  \<lparr>id_hunk = ''hunk-'' @ string_of_nat (hunkId st + 1),
                   header_hunk = line,
                   lines_hunk = [],
                   selected_hunk = True\<rparr>),
                currentFile := Some (f\<lparr>hunks := hunks f @ [hunkId st + 1]\<rparr>)\<rparr>)
      else
        (case currentHunk st of
           None \<Rightarrow> st
         | Some a \<Rightarrow>
             (case store st a of
                None \<Rightarrow> st
              | Some h \<Rightarrow> st\<lparr>store := (store st)(a \<mapsto> h\<lparr>lines_hunk := lines_hunk h @ [line]\<rparr>)\<rparr>)))"

definition parse_lines :: "string list \<Rightarrow> parse_state" where
  "parse_lines ls = fold parse_line ls parse_init"

text \<open>Reading the finished array: every address is replaced by the hunk it refers to. Every
  address in a \<^verbatim>\<open>hunks\<close> array is in use (\<open>parse_inv\<close> below), so nothing is left out.\<close>

definition deref_file :: "(nat \<rightharpoonup> DiffHunk) \<Rightarrow> nat DiffFile \<Rightarrow> DiffHunk DiffFile" where
  "deref_file st f =
     \<lparr>id_file = id_file f, header_file = header_file f, path = path f,
      hunks = List.map_filter st (hunks f), selected_file = selected_file f\<rparr>"

definition finish :: "parse_state \<Rightarrow> Document" where
  "finish st = map (deref_file (store st)) (push_current st)"

text \<open>\<^verbatim>\<open>parseDiff\<close>; the result is the array handed to \<^verbatim>\<open>setParsedDiff\<close>.\<close>

definition parseDiff :: "string \<Rightarrow> Document" where
  "parseDiff text = finish (parse_lines (split_lf text))"

section \<open>Line numbers of a hunk\<close>

text \<open>
  A JavaScript number is a double. The numbers of \<^verbatim>\<open>calculateLineNumbers\<close> come from
  digit strings and from \<^verbatim>\<open>++\<close>, so each of them is a natural number that a double can
  hold, or \<^verbatim>\<open>Infinity\<close>. A natural number below \<open>2^53\<close> is held exactly; a larger one is
  rounded to 53 significant bits, to the nearest such number and to the one with an even
  last bit when two are equally near, and to \<^verbatim>\<open>Infinity\<close> from \<open>2^1024\<close> on.
\<close>

datatype js_number = Finite nat | Infinity

text \<open>How many low bits a number has beyond its 53 leading ones.\<close>

function excess_bits :: "nat \<Rightarrow> nat" where
  "excess_bits n = (if n < 2 ^ 53 then 0 else Suc (excess_bits (n div 2)))"
  by pat_completeness auto
termination
  by (relation "measure id") auto

declare excess_bits.simps [simp del]

definition round_double :: "nat \<Rightarrow> js_number" where
  "round_double n =
     (if n < 2 ^ 53 then Finite n
      else
        (let e = excess_bits n;
             q = n div 2 ^ e;
             r = n mod 2 ^ e;
             q' = (if 2 ^ e < 2 * r \<or> (2 * r = 2 ^ e \<and> odd q) then q + 1 else q)
         in if 2 ^ 1024 \<le> q' * 2 ^ e then Infinity else Finite (q' * 2 ^ e)))"

text \<open>\<^verbatim>\<open>x++\<close> on a number: the sum with one, rounded.\<close>

fun js_increment :: "js_number \<Rightarrow> js_number" where
  "js_increment (Finite x) = round_double (x + 1)"
| "js_increment Infinity = Infinity"

text \<open>
  \<^verbatim>\<open>parseInt\<close> on a group of \<^verbatim>\<open>\d+\<close>: the decimal value of the digits, as a double.
  (For more than 20 significant digits the language lets an engine read the later digits
  as zeros; the engines round the exact value, as is done here.)
\<close>

definition digit_val :: "char \<Rightarrow> nat" where
  "digit_val c = of_char c - 48"

definition decimal_value :: "string \<Rightarrow> nat" where
  "decimal_value ds = foldl (\<lambda>n c. 10 * n + digit_val c) 0 ds"

definition parseInt :: "string \<Rightarrow> js_number" where
  "parseInt ds = round_double (decimal_value ds)"

record LineNum =
  oldLineNum :: js_number
  newLineNum :: js_number

text \<open>The callback of \<^verbatim>\<open>hunk.lines.map\<close>, with the two counters it closes over.\<close>

fun number_lines :: "js_number \<Rightarrow> js_number \<Rightarrow> string list \<Rightarrow> LineNum list" where
  "number_lines old new [] = []"
| "number_lines old new (line # rest) =
     \<lparr>oldLineNum = old, newLineNum = new\<rparr> #
       number_lines (if \<not> startsWith line ''+'' then js_increment old else old)
                    (if \<not> startsWith line ''-'' then js_increment new else new) rest"

definition calculateLineNumbers :: "DiffHunk \<Rightarrow> LineNum list" where
  "calculateLineNumbers hunk =
     (case regex_search hunk_header_regex (header_hunk hunk) of
        None \<Rightarrow> []
      | Some caps \<Rightarrow>
          (case caps of
             [m1, m2] \<Rightarrow> number_lines (parseInt m1) (parseInt m2) (lines_hunk hunk)
           | _ \<Rightarrow> []))"

text \<open>
  What the two number columns show for each line of a hunk, in the table and on the canvas
  alike: the old number unless the line starts with \<^verbatim>\<open>+\<close>, the new number unless it
  starts with \<^verbatim>\<open>-\<close>, and nothing where \<^verbatim>\<open>calculateLineNumbers\<close> has no entry.
\<close>

definition shown_numbers :: "DiffHunk \<Rightarrow> (js_number option \<times> js_number option) list" where
  "shown_numbers hunk =
     map (\<lambda>(i, line).
            if i < length (calculateLineNumbers hunk) then
              (if \<not> startsWith line ''+'' then Some (oldLineNum (calculateLineNumbers hunk ! i)) else None,
               if \<not> startsWith line ''-'' then Some (newLineNum (calculateLineNumbers hunk ! i)) else None)
            else (None, None))
         (enumerate 0 (lines_hunk hunk))"

section \<open>Selection\<close>

text \<open>Each handler computes \<^verbatim>\<open>updatedDiff\<close> from the state \<^verbatim>\<open>parsedDiff\<close> and stores it
  with \<^verbatim>\<open>setParsedDiff\<close>; the functions below are that computation, with the state as
  the last argument \<open>diff\<close> and the parameters \<^verbatim>\<open>fileId\<close> and \<^verbatim>\<open>hunkId\<close> as \<open>fid\<close> and
  \<open>hid\<close>.\<close>

definition toggleFileSelection :: "string \<Rightarrow> Document \<Rightarrow> Document" where
  "toggleFileSelection fid diff =
     map (\<lambda>file.
            if id_file file = fid then
              (let newSelected = \<not> selected_file file in
                 file\<lparr>selected_file := newSelected,
                      hunks := map (\<lambda>hunk. hunk\<lparr>selected_hunk := newSelected\<rparr>) (hunks file)\<rparr>)
            else file)
         diff"

definition toggleHunkSelection :: "string \<Rightarrow> string \<Rightarrow> Document \<Rightarrow> Document" where
  "toggleHunkSelection fid hid diff =
     map (\<lambda>file.
            if id_file file = fid then
              (let updatedHunks =
                     map (\<lambda>hunk. if id_hunk hunk = hid
                                  then hunk\<lparr>selected_hunk := \<not> selected_hunk hunk\<rparr>
                                  else hunk)
                         (hunks file);
                   allHunksSelected = list_all selected_hunk updatedHunks
               in file\<lparr>hunks := updatedHunks, selected_file := allHunksSelected\<rparr>)
            else file)
         diff"

definition selectAll :: "bool \<Rightarrow> Document \<Rightarrow> Document" where
  "selectAll select diff =
     map (\<lambda>file.
            file\<lparr>selected_file := select,
                 hunks := map (\<lambda>hunk. hunk\<lparr>selected_hunk := select\<rparr>) (hunks file)\<rparr>)
         diff"

section \<open>Rendering\<close>

text \<open>
  \<^verbatim>\<open>downloadAsImage\<close> reads the component state and the page: the element behind
  \<^verbatim>\<open>diffContainerRef\<close> (absent, or with its \<^verbatim>\<open>offsetWidth\<close>) and whether a canvas
  gives a 2D context. It filters the document, measures the canvas, paints it and starts a
  download. The model keeps, as the output, the size of the canvas and the calls of
  \<^verbatim>\<open>fillText\<close> in the order they are made, each with what it writes and where. It leaves
  out the colours, the rectangles and the strokes, the file name, and a failure of the
  browser while painting or encoding, which the code catches and reports. A line number is
  written with \<^verbatim>\<open>toString\<close>; the model keeps the number. The font size is an integer
  (\<^verbatim>\<open>parseInt\<close> of a range input from 8 to 24) and so are all positions and sizes, far
  below \<open>2^53\<close>: they are modelled as integers.
\<close>

record ViewerState =
  parsedDiff :: Document
  fontSize :: int
  showLineNumbers :: bool
  isGeneratingImage :: bool

record Page =
  container :: "int option"
  context2d :: bool

datatype painted = Text string | Number js_number

datatype fill_text = FillText (painted_of: painted) (x_of: int) (y_of: int)

record Canvas =
  width :: int
  height :: int
  texts :: "fill_text list"

definition selectedFiles :: "Document \<Rightarrow> Document" where
  "selectedFiles d =
     filter (\<lambda>file. 0 < length (hunks file))
       (map (\<lambda>file. file\<lparr>hunks := filter selected_hunk (hunks file)\<rparr>)
          (filter (\<lambda>file. selected_file file \<or> list_ex selected_hunk (hunks file)) d))"

text \<open>
  The inner \<^verbatim>\<open>forEach\<close> over the hunks of a file: \<open>fs\<close> is the font size, \<open>n\<close> is
  \<^verbatim>\<open>file.hunks.length\<close>, \<open>hunkIndex\<close> the index of the hunk at the head and \<open>acc\<close> the
  variable \<^verbatim>\<open>totalHeight\<close>.
\<close>

fun hunks_height :: "int \<Rightarrow> nat \<Rightarrow> nat \<Rightarrow> DiffHunk list \<Rightarrow> int \<Rightarrow> int" where
  "hunks_height fs n hunkIndex [] acc = acc"
| "hunks_height fs n hunkIndex (hunk # rest) acc =
     hunks_height fs n (hunkIndex + 1) rest
       (let t = acc + (fs + 4) + int (length (lines_hunk hunk)) * (fs + 2)
        in if int hunkIndex < int n - 1 then t + 5 else t)"

text \<open>
  The outer \<^verbatim>\<open>forEach\<close>. The test \<^verbatim>\<open>selectedFiles.indexOf(file) < selectedFiles.length - 1\<close>
  compares object identities, and every element of \<^verbatim>\<open>selectedFiles\<close> is an object made
  afresh by the \<^verbatim>\<open>map\<close> of the filtering step, so \<^verbatim>\<open>indexOf\<close> returns the index of the
  element being visited: \<open>fileIndex\<close> below.
\<close>

fun files_height :: "int \<Rightarrow> nat \<Rightarrow> nat \<Rightarrow> Document \<Rightarrow> int \<Rightarrow> int" where
  "files_height fs n fileIndex [] acc = acc"
| "files_height fs n fileIndex (file # rest) acc =
     files_height fs n (fileIndex + 1) rest
       (let t = hunks_height fs (length (hunks file)) 0 (hunks file) (acc + (fs + 8))
        in if int fileIndex < int n - 1 then t + 10 else t)"

definition totalHeight :: "int \<Rightarrow> Document \<Rightarrow> int" where
  "totalHeight fs sel = files_height fs (length sel) 0 sel 10 + 10"

text \<open>\<^verbatim>\<open>getLinePrefix\<close>, and the text of a line without its marker.\<close>

definition getLinePrefix :: "string \<Rightarrow> string" where
  "getLinePrefix line =
     (if startsWith line ''+'' then ''+'' else if startsWith line ''-'' then ''-'' else '' '')"

definition lineContent :: "string \<Rightarrow> string" where
  "lineContent line =
     (if startsWith line ''+'' \<or> startsWith line ''-'' then drop 1 line else line)"

text \<open>
  The second pass, which paints. Each of the three loops is a function from the list still
  to be visited and \<^verbatim>\<open>yOffset\<close> to the calls of \<^verbatim>\<open>fillText\<close> it makes and the \<^verbatim>\<open>yOffset\<close>
  it leaves. \<open>sn\<close> is \<^verbatim>\<open>showLineNumbers\<close>, \<open>nums\<close> is \<^verbatim>\<open>calculateLineNumbers(hunk)\<close>; the
  numbers are written when \<^verbatim>\<open>showLineNumbers && lineNumbers && lineNumbers[lineIndex]\<close>
  holds, that is when \<open>sn\<close> holds and \<open>nums\<close> has an entry at the index. The constants are
  \<^verbatim>\<open>xPadding = 20\<close> and \<^verbatim>\<open>lineNumberPadding = 80\<close>.
\<close>

fun paint_lines ::
    "bool \<Rightarrow> int \<Rightarrow> LineNum list \<Rightarrow> nat \<Rightarrow> string list \<Rightarrow> int \<Rightarrow> fill_text list \<times> int" where
  "paint_lines sn fs nums lineIndex [] yOffset = ([], yOffset)"
| "paint_lines sn fs nums lineIndex (line # rest) yOffset =
     (let numbered = (sn \<and> lineIndex < length nums);
          contentXPosition = (if numbered then 20 + 80 else 20);
          calls =
            (if numbered \<and> \<not> startsWith line ''+''
             then [FillText (Number (oldLineNum (nums ! lineIndex))) 20 (yOffset + 1)] else []) @
            (if numbered \<and> \<not> startsWith line ''-''
             then [FillText (Number (newLineNum (nums ! lineIndex))) (20 + 40) (yOffset + 1)] else []) @
            [FillText (Text (getLinePrefix line)) contentXPosition (yOffset + 1),
             FillText (Text (lineContent line)) (contentXPosition + 20) (yOffset + 1)];
          r = paint_lines sn fs nums (lineIndex + 1) rest (yOffset + (fs + 2))
      in (calls @ fst r, snd r))"

fun paint_hunks ::
    "bool \<Rightarrow> int \<Rightarrow> nat \<Rightarrow> nat \<Rightarrow> DiffHunk list \<Rightarrow> int \<Rightarrow> fill_text list \<times> int" where
  "paint_hunks sn fs n hunkIndex [] yOffset = ([], yOffset)"
| "paint_hunks sn fs n hunkIndex (hunk # rest) yOffset =
     (let l = paint_lines sn fs (calculateLineNumbers hunk) 0 (lines_hunk hunk)
                (yOffset + (fs + 4));
          r = paint_hunks sn fs n (hunkIndex + 1) rest
                (if int hunkIndex < int n - 1 then snd l + 5 else snd l)
      in (FillText (Text (header_hunk hunk)) 20 (yOffset + 2) # fst l @ fst r, snd r))"

fun paint_files ::
    "bool \<Rightarrow> int \<Rightarrow> nat \<Rightarrow> nat \<Rightarrow> Document \<Rightarrow> int \<Rightarrow> fill_text list \<times> int" where
  "paint_files sn fs n fileIndex [] yOffset = ([], yOffset)"
| "paint_files sn fs n fileIndex (file # rest) yOffset =
     (let h = paint_hunks sn fs (length (hunks file)) 0 (hunks file) (yOffset + (fs + 8));
          r = paint_files sn fs n (fileIndex + 1) rest
                (if int fileIndex < int n - 1 then snd h + 10 else snd h)
      in (FillText (Text (path file)) 20 (yOffset + 4) # fst h @ fst r, snd r))"

definition downloadAsImage :: "Page \<Rightarrow> ViewerState \<Rightarrow> Canvas option \<times> ViewerState" where
  "downloadAsImage page st =
     (let sel = selectedFiles (parsedDiff st) in
        (case container page of
           None \<Rightarrow> (None, st\<lparr>isGeneratingImage := False\<rparr>)
         | Some offsetWidth \<Rightarrow>
             if length sel = 0 then (None, st\<lparr>isGeneratingImage := False\<rparr>)
             else if \<not> context2d page then (None, st\<lparr>isGeneratingImage := False\<rparr>)
             else (Some \<lparr>width = offsetWidth, height = totalHeight (fontSize st) sel,
                         texts = fst (paint_files (showLineNumbers st) (fontSize st)
                                        (length sel) 0 sel 10)\<rparr>,
                   st\<lparr>isGeneratingImage := False\<rparr>)))"

section \<open>Example documents\<close>

text \<open>A file with two hunks, parsed and then left in a mixed state by one click on its first
  hunk: the file and the first hunk are deselected, the second hunk is selected.\<close>

definition mixed_document :: Document where
  "mixed_document =
     toggleHunkSelection ''file-1'' ''hunk-1''
       (parseDiff ''diff --git a/x b/x\<newline>@@ -1 +1 @@\<newline>+a\<newline>@@ -5 +5 @@\<newline>-b'')"

text \<open>A rename-only section, which has no hunk, deselected by one click on the file.\<close>

definition hunkless_document :: Document where
  "hunkless_document =
     toggleFileSelection ''file-1'' (parseDiff ''diff --git a/old b/new\<newline>rename from old'')"

section \<open>What a selection handler must not touch\<close>

text \<open>Everything in a hunk and in a file but the \<^verbatim>\<open>selected\<close> flags.\<close>

definition hunk_content :: "DiffHunk \<Rightarrow> string \<times> string \<times> string list" where
  "hunk_content h = (id_hunk h, header_hunk h, lines_hunk h)"

definition file_content ::
    "DiffHunk DiffFile \<Rightarrow> string \<times> string \<times> string \<times> (string \<times> string \<times> string list) list" where
  "file_content f = (id_file f, header_file f, path f, map hunk_content (hunks f))"

section \<open>The canvas height as the sum of its rows\<close>

text \<open>
  The height as a sum over rows and gaps: 10 at the top and 10 at the bottom,
  \<open>fontSize + 8\<close> for each file header, \<open>fontSize + 4\<close> for each hunk header,
  \<open>fontSize + 2\<close> for each line, 5 between two hunks of a file and 10 between two files.
  A file with \<open>n\<close> hunks has \<open>n - 1\<close> gaps between them (none when it has no hunk), and
  \<open>n\<close> files have \<open>n - 1\<close> gaps between them.
\<close>

definition hunk_count :: "Document \<Rightarrow> nat" where
  "hunk_count sel = sum_list (map (\<lambda>file. length (hunks file)) sel)"

definition line_count :: "Document \<Rightarrow> nat" where
  "line_count sel =
     sum_list (map (\<lambda>file. sum_list (map (\<lambda>hunk. length (lines_hunk hunk)) (hunks file))) sel)"

definition hunk_gaps :: "Document \<Rightarrow> nat" where
  "hunk_gaps sel = sum_list (map (\<lambda>file. length (hunks file) - 1) sel)"

definition file_gaps :: "Document \<Rightarrow> nat" where
  "file_gaps sel = length sel - 1"

definition height_formula :: "int \<Rightarrow> Document \<Rightarrow> int" where
  "height_formula fs sel =
     10 + 10 + int (length sel) * (fs + 8) + int (hunk_count sel) * (fs + 4) +
     int (line_count sel) * (fs + 2) + 5 * int (hunk_gaps sel) + 10 * int (file_gaps sel)"

section \<open>What the image shows\<close>

text \<open>
  The texts of an image of a list of files, in reading order: for each file its path, then
  for each of its hunks the header and, line by line, the numbers that the two columns show
  (when line numbers are on), the marker and the text of the line.
\<close>

definition number_texts :: "bool \<Rightarrow> js_number option \<times> js_number option \<Rightarrow> painted list" where
  "number_texts sn shown =
     (if sn then (case fst shown of None \<Rightarrow> [] | Some n \<Rightarrow> [Number n]) @
                 (case snd shown of None \<Rightarrow> [] | Some n \<Rightarrow> [Number n])
      else [])"

definition hunk_rows :: "bool \<Rightarrow> DiffHunk \<Rightarrow> painted list" where
  "hunk_rows sn hunk =
     concat (map (\<lambda>(i, line). number_texts sn (shown_numbers hunk ! i) @
                               [Text (getLinePrefix line), Text (lineContent line)])
                 (enumerate 0 (lines_hunk hunk)))"

definition image_texts :: "bool \<Rightarrow> Document \<Rightarrow> painted list" where
  "image_texts sn files =
     concat (map (\<lambda>file. Text (path file) #
                    concat (map (\<lambda>hunk. Text (header_hunk hunk) # hunk_rows sn hunk) (hunks file)))
                 files)"

section \<open>An example session\<close>

text \<open>Two files, the first with two hunks of three and two lines, the second with one hunk
  of four lines; the first hunk of the first file has been deselected. The page has a
  container 800 pixels wide and gives a 2D context; the font size is the default and line
  numbers are switched on.\<close>

definition scenario_document :: Document where
  "scenario_document =
     toggleHunkSelection ''file-1'' ''hunk-1''
       (parseDiff ''diff --git a/a.ts b/a.ts\<newline>@@ -1,3 +1,3 @@\<newline> a\<newline>-b\<newline>+c\<newline>@@ -10,2 +10,2 @@\<newline>-d\<newline>+e\<newline>diff --git a/b.ts b/b.ts\<newline>@@ -1,4 +1,4 @@\<newline> x\<newline>-y\<newline>+z\<newline> w'')"

definition example_page :: Page where
  "example_page = \<lparr>container = Some 800, context2d = True\<rparr>"

definition scenario_state :: ViewerState where
  "scenario_state =
     \<lparr>parsedDiff = scenario_document, fontSize = 14, showLineNumbers = True,
      isGeneratingImage = False\<rparr>"

section \<open>The hunk of the numbering example\<close>

definition example_hunk :: DiffHunk where
  "example_hunk =
     \<lparr>id_hunk = ''hunk-1'', header_hunk = ''@@ -10,3 +20,4 @@'',
      lines_hunk = ['' ctx1'', ''-old1'', ''+new1'', ''+new2'', '' ctx2''], selected_hunk = True\<rparr>"

text \<open>A hunk whose old side starts at \<open>2^53\<close>.\<close>

definition large_hunk :: DiffHunk where
  "large_hunk =
     \<lparr>id_hunk = ''hunk-1'', header_hunk = ''@@ -9007199254740992 +1 @@'',
      lines_hunk = ['' a'', '' b''], selected_hunk = True\<rparr>"

section \<open>Notions used to state the properties of the parser\<close>

text \<open>A content line is a line that none of the first three tests of the scan accepts.\<close>

definition content_line :: "string \<Rightarrow> bool" where
  "content_line l =
     (\<not> (startsWith l ''diff --git'' \<or> startsWith l ''---'' \<or> startsWith l ''+++'' \<or> startsWith l ''@@''))"

text \<open>The hunks of a document, file after file.\<close>

definition all_hunks :: "'h DiffFile list \<Rightarrow> 'h list" where
  "all_hunks d = concat (map hunks d)"

text \<open>
  What holds of the variables of the scan after every line: the addresses in the
  \<^verbatim>\<open>hunks\<close> arrays of the files pushed so far and of the current file are \<open>1\<close> to
  \<^verbatim>\<open>hunkId\<close> in this order, these are the addresses in use, \<^verbatim>\<open>currentHunk\<close> is the
  hunk made last, and the ids of hunks and files are numbered by the two counters.
\<close>

definition parse_inv :: "parse_state \<Rightarrow> bool" where
  "parse_inv st =
     (all_hunks (push_current st) = [1 ..< Suc (hunkId st)] \<and>
      dom (store st) = {1 .. hunkId st} \<and>
      currentHunk st = (if hunkId st = 0 then None else Some (hunkId st)) \<and>
      list_all (\<lambda>a. map_option id_hunk (store st a) = Some (''hunk-'' @ string_of_nat a)) [1 ..< Suc (hunkId st)] \<and>
      map id_file (push_current st) = map (\<lambda>n. ''file-'' @ string_of_nat n) [1 ..< Suc (fileId st)])"

section \<open>Sessions\<close>

text \<open>The clicks that change the selection, and a session as the list of clicks made on a
  parsed document.\<close>

datatype action = ToggleFile string | ToggleHunk string string | SelectAll bool

fun apply_action :: "action \<Rightarrow> Document \<Rightarrow> Document" where
  "apply_action (ToggleFile fid) d = toggleFileSelection fid d"
| "apply_action (ToggleHunk fid hid) d = toggleHunkSelection fid hid d"
| "apply_action (SelectAll b) d = selectAll b d"

section \<open>Properties of the selection handlers\<close>

lemma selected_hunk_update_same:
  "h\<lparr>selected_hunk := b\<rparr> = h \<longleftrightarrow> selected_hunk h = b"
  by (cases h) auto

lemma hunks_update_same:
  "f\<lparr>hunks := hs\<rparr> = f \<longleftrightarrow> hs = hunks f"
  by (cases f) auto

lemma selected_file_update_same:
  "f\<lparr>selected_file := b\<rparr> = f \<longleftrightarrow> selected_file f = b"
  by (cases f) auto

lemma map_same_iff: "map f xs = xs \<longleftrightarrow> (\<forall>x\<in>set xs. f x = x)"
  by (induction xs) auto

lemma map_nth_update:
  assumes "i < length xs" and "\<And>k. k < length xs \<Longrightarrow> k \<noteq> i \<Longrightarrow> f (xs ! k) = xs ! k"
  shows "map f xs = xs[i := f (xs ! i)]"
  using assms by (auto simp: list_eq_iff_nth_eq nth_list_update)

lemma distinct_map_nth_eq:
  assumes "distinct (map g xs)" "i < length xs" "k < length xs"
  shows "g (xs ! k) = g (xs ! i) \<longleftrightarrow> k = i"
  using assms by (metis length_map nth_eq_iff_index_eq nth_map)

lemma mixed_document_value:
  "mixed_document =
     [\<lparr>id_file = ''file-1'', header_file = ''diff --git a/x b/x'', path = ''x'',
       hunks = [\<lparr>id_hunk = ''hunk-1'', header_hunk = ''@@ -1 +1 @@'', lines_hunk = [''+a''],
                  selected_hunk = False\<rparr>,
                \<lparr>id_hunk = ''hunk-2'', header_hunk = ''@@ -5 +5 @@'', lines_hunk = [''-b''],
                  selected_hunk = True\<rparr>],
       selected_file = False\<rparr>]"
  unfolding mixed_document_def by code_simp

subsection \<open>Toggling a file twice\<close>

lemma toggleFile_twice_eq:
  "toggleFileSelection fid (toggleFileSelection fid d) =
     map (\<lambda>file. if id_file file = fid
                 then file\<lparr>hunks := map (\<lambda>h. h\<lparr>selected_hunk := selected_file file\<rparr>) (hunks file)\<rparr>
                 else file) d"
  by (simp add: toggleFileSelection_def Let_def comp_def if_distrib cong: if_cong)

text \<open>
  Claim C1, as amended. Applying \<^verbatim>\<open>toggleFileSelection\<close> twice to the same file id restores
  the \<^verbatim>\<open>selected\<close> flag of the file and sets the flag of every hunk of the file to that
  restored value; all other files are as before. So the second toggle gives back the
  document exactly when, in every file with that id, each hunk's flag was equal to the
  file's flag before the first toggle. In a mixed state the hunks that differed from the
  file are not restored.
\<close>

theorem toggleFileSelection_twice:
  "toggleFileSelection fid (toggleFileSelection fid d) =
     map (\<lambda>file. if id_file file = fid
                 then file\<lparr>hunks := map (\<lambda>h. h\<lparr>selected_hunk := selected_file file\<rparr>) (hunks file)\<rparr>
                 else file) d
   \<and> (toggleFileSelection fid (toggleFileSelection fid d) = d \<longleftrightarrow>
        (\<forall>file\<in>set d. id_file file = fid \<longrightarrow>
           (\<forall>h\<in>set (hunks file). selected_hunk h = selected_file file)))"
  unfolding toggleFile_twice_eq
  by (simp add: map_same_iff hunks_update_same selected_hunk_update_same)

text \<open>The theorem at a document whose file and hunks are all deselected: two toggles give
  the document back.\<close>

theorem toggleFileSelection_twice_witness:
  "toggleFileSelection ''file-1'' (toggleFileSelection ''file-1'' (selectAll False mixed_document)) =
     selectAll False mixed_document"
  using toggleFileSelection_twice [of "''file-1''" "selectAll False mixed_document"]
  unfolding mixed_document_value by (simp add: selectAll_def)

text \<open>Two toggles do not restore every state: in the mixed document the second hunk is
  selected before the two toggles and deselected after them.\<close>

theorem toggleFileSelection_twice_counterexample:
  "map (map selected_hunk \<circ> hunks) mixed_document = [[False, True]] \<and>
   map (map selected_hunk \<circ> hunks)
     (toggleFileSelection ''file-1'' (toggleFileSelection ''file-1'' mixed_document)) =
     [[False, False]]"
  unfolding mixed_document_value by (simp add: toggleFileSelection_def)

lemma hunkless_document_value:
  "hunkless_document =
     [\<lparr>id_file = ''file-1'', header_file = ''diff --git a/old b/new'', path = ''new'',
       hunks = [], selected_file = False\<rparr>]"
  unfolding hunkless_document_def by code_simp

subsection \<open>Toggling a hunk\<close>

text \<open>
  Claim C5. In a document whose file ids are pairwise different, for the file at position
  \<open>i\<close> with pairwise different hunk ids and its hunk at position \<open>j\<close>,
  \<^verbatim>\<open>toggleHunkSelection\<close> with the ids of that file and that hunk changes the document at
  position \<open>i\<close> only: there the hunk at position \<open>j\<close> has its flag negated, the other hunks
  are as before, and the file's flag is true if and only if every hunk of the file is
  selected afterwards. The documents of a session are such documents, see
  \<open>session_distinct_ids\<close>.
\<close>

theorem toggleHunkSelection_flips_one:
  assumes "distinct (map id_file d)" and "i < length d"
    and "distinct (map id_hunk (hunks (d ! i)))" and "j < length (hunks (d ! i))"
  shows "toggleHunkSelection (id_file (d ! i)) (id_hunk (hunks (d ! i) ! j)) d =
           (let hunk = hunks (d ! i) ! j;
                updatedHunks = (hunks (d ! i))[j := hunk\<lparr>selected_hunk := \<not> selected_hunk hunk\<rparr>]
            in d[i := (d ! i)\<lparr>hunks := updatedHunks,
                              selected_file := (\<forall>h\<in>set updatedHunks. selected_hunk h)\<rparr>])"
proof -
  let ?f = "d ! i"
  let ?h = "hunks ?f ! j"
  let ?flip = "\<lambda>hunk. if id_hunk hunk = id_hunk ?h
                       then hunk\<lparr>selected_hunk := \<not> selected_hunk hunk\<rparr> else hunk"
  let ?upd = "\<lambda>file. if id_file file = id_file ?f
                then (let updatedHunks = map ?flip (hunks file);
                          allHunksSelected = list_all selected_hunk updatedHunks
                      in file\<lparr>hunks := updatedHunks, selected_file := allHunksSelected\<rparr>)
                else file"
  have hs: "map ?flip (hunks ?f) = (hunks ?f)[j := ?h\<lparr>selected_hunk := \<not> selected_hunk ?h\<rparr>]"
  proof -
    have "map ?flip (hunks ?f) = (hunks ?f)[j := ?flip ?h]"
      using assms(3,4) by (intro map_nth_update) (auto simp: distinct_map_nth_eq)
    then show ?thesis by simp
  qed
  have "toggleHunkSelection (id_file ?f) (id_hunk ?h) d = map ?upd d"
    by (simp add: toggleHunkSelection_def)
  also have "\<dots> = d[i := ?upd ?f]"
    using assms(1,2) by (intro map_nth_update) (auto simp: distinct_map_nth_eq)
  finally show ?thesis
    by (simp add: Let_def hs list_all_iff)
qed

text \<open>The theorem at the second hunk of the mixed document: the hunk is deselected, the
  first hunk stays deselected and the file stays deselected.\<close>

theorem toggleHunkSelection_flips_one_witness:
  "toggleHunkSelection ''file-1'' ''hunk-2'' mixed_document =
     [\<lparr>id_file = ''file-1'', header_file = ''diff --git a/x b/x'', path = ''x'',
       hunks = [\<lparr>id_hunk = ''hunk-1'', header_hunk = ''@@ -1 +1 @@'', lines_hunk = [''+a''],
                  selected_hunk = False\<rparr>,
                \<lparr>id_hunk = ''hunk-2'', header_hunk = ''@@ -5 +5 @@'', lines_hunk = [''-b''],
                  selected_hunk = False\<rparr>],
       selected_file = False\<rparr>]"
  using toggleHunkSelection_flips_one [of mixed_document 0 1]
  unfolding mixed_document_value by simp

text \<open>
  Claim C9. When the file at position \<open>i\<close> has the addressed id and no hunks,
  \<^verbatim>\<open>toggleHunkSelection\<close> leaves it with its flag set to true, whatever the flag and the
  hunk id were. More generally, when no hunk of any file with the addressed id has the
  given hunk id, no hunk flag changes and each addressed file gets its flag recomputed from
  its unchanged hunks: true if and only if all of them are selected.
\<close>

theorem toggleHunkSelection_no_match:
  "(i < length d \<and> id_file (d ! i) = fid \<and> hunks (d ! i) = [] \<longrightarrow>
      toggleHunkSelection fid hid d ! i = (d ! i)\<lparr>selected_file := True\<rparr>) \<and>
   ((\<forall>file\<in>set d. id_file file = fid \<longrightarrow> hid \<notin> id_hunk ` set (hunks file)) \<longrightarrow>
      toggleHunkSelection fid hid d =
        map (\<lambda>file. if id_file file = fid
                    then file\<lparr>selected_file := (\<forall>h\<in>set (hunks file). selected_hunk h)\<rparr>
                    else file) d)"
proof (intro conjI impI)
  assume "i < length d \<and> id_file (d ! i) = fid \<and> hunks (d ! i) = []"
  then show "toggleHunkSelection fid hid d ! i = (d ! i)\<lparr>selected_file := True\<rparr>"
    by (simp add: toggleHunkSelection_def)
next
  assume a: "\<forall>file\<in>set d. id_file file = fid \<longrightarrow> hid \<notin> id_hunk ` set (hunks file)"
  have "map (\<lambda>hunk. if id_hunk hunk = hid then hunk\<lparr>selected_hunk := \<not> selected_hunk hunk\<rparr> else hunk)
          (hunks f) = hunks f"
    if "f \<in> set d" "id_file f = fid" for f
    using a that by (auto simp: map_same_iff)
  then show "toggleHunkSelection fid hid d =
        map (\<lambda>file. if id_file file = fid
                    then file\<lparr>selected_file := (\<forall>h\<in>set (hunks file). selected_hunk h)\<rparr>
                    else file) d"
    by (auto simp: toggleHunkSelection_def Let_def list_all_iff)
qed

text \<open>The theorem at a deselected file without hunks, which comes out selected, and at the
  mixed document with a hunk id that none of its hunks has, which comes out unchanged.\<close>

theorem toggleHunkSelection_no_match_witness:
  "toggleHunkSelection ''file-1'' ''hunk-1'' hunkless_document ! 0 =
     (hunkless_document ! 0)\<lparr>selected_file := True\<rparr> \<and>
   selected_file (hunkless_document ! 0) = False \<and>
   toggleHunkSelection ''file-1'' ''hunk-7'' mixed_document = mixed_document"
  using toggleHunkSelection_no_match [of 0 hunkless_document "''file-1''" "''hunk-1''"]
    toggleHunkSelection_no_match [of 0 mixed_document "''file-1''" "''hunk-7''"]
  unfolding hunkless_document_value mixed_document_value by simp

subsection \<open>What the handlers leave alone\<close>

text \<open>
  Claim C10. \<^verbatim>\<open>toggleFileSelection\<close>, \<^verbatim>\<open>toggleHunkSelection\<close> and \<^verbatim>\<open>selectAll\<close> return a
  document with the same files in the same order, each with the same id, header, path and
  the same hunks in the same order, each hunk with the same id, header and lines: only
  \<^verbatim>\<open>selected\<close> flags can differ. The two toggles return every file whose id is not the
  addressed one exactly as it was.
\<close>

theorem selection_frame:
  "map file_content (toggleFileSelection fid d) = map file_content d \<and>
   map file_content (toggleHunkSelection fid hid d) = map file_content d \<and>
   map file_content (selectAll b d) = map file_content d \<and>
   (\<forall>i<length d. id_file (d ! i) \<noteq> fid \<longrightarrow>
      toggleFileSelection fid d ! i = d ! i \<and> toggleHunkSelection fid hid d ! i = d ! i)"
  by (simp add: toggleFileSelection_def toggleHunkSelection_def selectAll_def Let_def
        file_content_def hunk_content_def comp_def if_distrib cong: if_cong)

text \<open>The theorem at the mixed document, addressed with its own file id and with another.\<close>

theorem selection_frame_witness:
  "map file_content (toggleFileSelection ''file-1'' mixed_document) = map file_content mixed_document \<and>
   map file_content (toggleHunkSelection ''file-1'' ''hunk-2'' mixed_document) =
     map file_content mixed_document \<and>
   map file_content (selectAll True mixed_document) = map file_content mixed_document \<and>
   toggleFileSelection ''file-2'' mixed_document ! 0 = mixed_document ! 0 \<and>
   toggleHunkSelection ''file-2'' ''hunk-2'' mixed_document ! 0 = mixed_document ! 0"
  using selection_frame [of "''file-1''" mixed_document "''hunk-2''" True]
    selection_frame [of "''file-2''" mixed_document "''hunk-2''" True]
  unfolding mixed_document_value by simp

section \<open>Properties of the line numbers\<close>

lemma round_double_exact: "n < 2 ^ 53 \<Longrightarrow> round_double n = Finite n"
  by (simp add: round_double_def)

lemma excess_bits_one: "2 ^ 53 \<le> n \<Longrightarrow> n < 2 ^ 54 \<Longrightarrow> excess_bits n = 1"
  by (subst excess_bits.simps, simp, subst excess_bits.simps, simp)

lemma example_hunk_header:
  "regex_search hunk_header_regex (header_hunk example_hunk) = Some [''10'', ''20'']"
  by code_simp

lemma example_hunk_numbers:
  "calculateLineNumbers example_hunk =
     [\<lparr>oldLineNum = Finite 10, newLineNum = Finite 20\<rparr>,
      \<lparr>oldLineNum = Finite 11, newLineNum = Finite 21\<rparr>,
      \<lparr>oldLineNum = Finite 12, newLineNum = Finite 21\<rparr>,
      \<lparr>oldLineNum = Finite 12, newLineNum = Finite 22\<rparr>,
      \<lparr>oldLineNum = Finite 12, newLineNum = Finite 23\<rparr>]"
  unfolding calculateLineNumbers_def example_hunk_header
  by (simp add: example_hunk_def parseInt_def decimal_value_def digit_val_def round_double_exact
        startsWith_def)

lemma example_hunk_shown:
  "shown_numbers example_hunk =
     [(Some (Finite 10), Some (Finite 20)), (Some (Finite 11), None), (None, Some (Finite 21)),
      (None, Some (Finite 22)), (Some (Finite 12), Some (Finite 23))]"
  unfolding shown_numbers_def example_hunk_numbers
  by (simp add: example_hunk_def startsWith_def enumerate_eq_zip upt_rec)

lemma number_lines_length: "length (number_lines old new ls) = length ls"
  by (induction ls arbitrary: old new) auto

lemma number_lines_old:
  "i < length ls \<Longrightarrow> a + i < 2 ^ 53 \<Longrightarrow>
   oldLineNum (number_lines (Finite a) new ls ! i) =
     Finite (a + length (filter (\<lambda>l. \<not> startsWith l ''+'') (take i ls)))"
proof (induction ls arbitrary: a new i)
  case Nil
  then show ?case by simp
next
  case (Cons l ls)
  show ?case
  proof (cases i)
    case 0
    then show ?thesis by simp
  next
    case (Suc k)
    with Cons.prems have k: "k < length ls" and bound: "Suc a + k < 2 ^ 53" "a + k < 2 ^ 53"
      by simp_all
    have inc: "round_double (Suc a) = Finite (Suc a)"
      using bound(1) by (simp add: round_double_exact)
    show ?thesis
      using Cons.IH [OF k bound(1)] Cons.IH [OF k bound(2)] Suc by (simp add: inc)
  qed
qed

lemma number_lines_new:
  "i < length ls \<Longrightarrow> b + i < 2 ^ 53 \<Longrightarrow>
   newLineNum (number_lines old (Finite b) ls ! i) =
     Finite (b + length (filter (\<lambda>l. \<not> startsWith l ''-'') (take i ls)))"
proof (induction ls arbitrary: b old i)
  case Nil
  then show ?case by simp
next
  case (Cons l ls)
  show ?case
  proof (cases i)
    case 0
    then show ?thesis by simp
  next
    case (Suc k)
    with Cons.prems have k: "k < length ls" and bound: "Suc b + k < 2 ^ 53" "b + k < 2 ^ 53"
      by simp_all
    have inc: "round_double (Suc b) = Finite (Suc b)"
      using bound(1) by (simp add: round_double_exact)
    show ?thesis
      using Cons.IH [OF k bound(1)] Cons.IH [OF k bound(2)] Suc by (simp add: inc)
  qed
qed

lemma large_hunk_header:
  "regex_search hunk_header_regex (header_hunk large_hunk) = Some [''9007199254740992'', ''1'']"
  by code_simp

lemma large_hunk_numbers:
  "calculateLineNumbers large_hunk =
     [\<lparr>oldLineNum = Finite 9007199254740992, newLineNum = Finite 1\<rparr>,
      \<lparr>oldLineNum = Finite 9007199254740992, newLineNum = Finite 2\<rparr>]"
  unfolding calculateLineNumbers_def large_hunk_header
  by (simp add: large_hunk_def parseInt_def decimal_value_def digit_val_def round_double_def
        excess_bits_one startsWith_def)

text \<open>
  Claim C2, as amended. For the hunk with header \<^verbatim>\<open>@@ -10,3 +20,4 @@\<close> and the lines
  \<^verbatim>\<open>" ctx1", "-old1", "+new1", "+new2", " ctx2"\<close> the computed pairs are (10,20), (11,21),
  (12,21), (12,22) and (12,23), and the two columns show (10,20), (11,-), (-,21), (-,22) and
  (12,23). In general, when the header matches with the groups \<open>m1\<close> and \<open>m2\<close>, there is one
  pair for each line, the old column is empty on a line that starts with \<^verbatim>\<open>+\<close> and the
  new column is empty on a line that starts with \<^verbatim>\<open>-\<close>. As long as the numbers stay
  below \<open>2^53\<close>, the old number of a line is the value of \<open>m1\<close> plus the number of earlier
  lines that do not start with \<^verbatim>\<open>+\<close>, and the new number is the value of \<open>m2\<close> plus the
  number of earlier lines that do not start with \<^verbatim>\<open>-\<close>: each counter advances on every
  line but those of the other side.
\<close>

theorem line_numbers:
  "calculateLineNumbers example_hunk =
     [\<lparr>oldLineNum = Finite 10, newLineNum = Finite 20\<rparr>,
      \<lparr>oldLineNum = Finite 11, newLineNum = Finite 21\<rparr>,
      \<lparr>oldLineNum = Finite 12, newLineNum = Finite 21\<rparr>,
      \<lparr>oldLineNum = Finite 12, newLineNum = Finite 22\<rparr>,
      \<lparr>oldLineNum = Finite 12, newLineNum = Finite 23\<rparr>] \<and>
   shown_numbers example_hunk =
     [(Some (Finite 10), Some (Finite 20)), (Some (Finite 11), None), (None, Some (Finite 21)),
      (None, Some (Finite 22)), (Some (Finite 12), Some (Finite 23))] \<and>
   (regex_search hunk_header_regex (header_hunk hunk) = Some [m1, m2] \<longrightarrow>
      length (calculateLineNumbers hunk) = length (lines_hunk hunk) \<and>
      (\<forall>i<length (lines_hunk hunk).
         (decimal_value m1 + i < 2 ^ 53 \<longrightarrow>
            oldLineNum (calculateLineNumbers hunk ! i) =
              Finite (decimal_value m1 +
                length (filter (\<lambda>l. \<not> startsWith l ''+'') (take i (lines_hunk hunk))))) \<and>
         (decimal_value m2 + i < 2 ^ 53 \<longrightarrow>
            newLineNum (calculateLineNumbers hunk ! i) =
              Finite (decimal_value m2 +
                length (filter (\<lambda>l. \<not> startsWith l ''-'') (take i (lines_hunk hunk))))) \<and>
         shown_numbers hunk ! i =
           (if startsWith (lines_hunk hunk ! i) ''+'' then None
            else Some (oldLineNum (calculateLineNumbers hunk ! i)),
            if startsWith (lines_hunk hunk ! i) ''-'' then None
            else Some (newLineNum (calculateLineNumbers hunk ! i)))))"
proof (intro conjI impI allI)
  show "calculateLineNumbers example_hunk =
     [\<lparr>oldLineNum = Finite 10, newLineNum = Finite 20\<rparr>,
      \<lparr>oldLineNum = Finite 11, newLineNum = Finite 21\<rparr>,
      \<lparr>oldLineNum = Finite 12, newLineNum = Finite 21\<rparr>,
      \<lparr>oldLineNum = Finite 12, newLineNum = Finite 22\<rparr>,
      \<lparr>oldLineNum = Finite 12, newLineNum = Finite 23\<rparr>]"
    by (rule example_hunk_numbers)
  show "shown_numbers example_hunk =
     [(Some (Finite 10), Some (Finite 20)), (Some (Finite 11), None), (None, Some (Finite 21)),
      (None, Some (Finite 22)), (Some (Finite 12), Some (Finite 23))]"
    by (rule example_hunk_shown)
next
  assume m: "regex_search hunk_header_regex (header_hunk hunk) = Some [m1, m2]"
  then have calc: "calculateLineNumbers hunk =
      number_lines (parseInt m1) (parseInt m2) (lines_hunk hunk)"
    by (simp add: calculateLineNumbers_def)
  then show len: "length (calculateLineNumbers hunk) = length (lines_hunk hunk)"
    by (simp add: number_lines_length)
  fix i
  assume i: "i < length (lines_hunk hunk)"
  show "shown_numbers hunk ! i =
           (if startsWith (lines_hunk hunk ! i) ''+'' then None
            else Some (oldLineNum (calculateLineNumbers hunk ! i)),
            if startsWith (lines_hunk hunk ! i) ''-'' then None
            else Some (newLineNum (calculateLineNumbers hunk ! i)))"
    using i len by (simp add: shown_numbers_def nth_enumerate_eq)
  {
    assume b: "decimal_value m1 + i < 2 ^ 53"
    then have "parseInt m1 = Finite (decimal_value m1)"
      by (simp add: parseInt_def round_double_exact)
    then show "oldLineNum (calculateLineNumbers hunk ! i) =
              Finite (decimal_value m1 +
                length (filter (\<lambda>l. \<not> startsWith l ''+'') (take i (lines_hunk hunk))))"
      using i b by (simp add: calc number_lines_old)
  }
  {
    assume b: "decimal_value m2 + i < 2 ^ 53"
    then have "parseInt m2 = Finite (decimal_value m2)"
      by (simp add: parseInt_def round_double_exact)
    then show "newLineNum (calculateLineNumbers hunk ! i) =
              Finite (decimal_value m2 +
                length (filter (\<lambda>l. \<not> startsWith l ''-'') (take i (lines_hunk hunk))))"
      using i b by (simp add: calc number_lines_new)
  }
qed

text \<open>The theorem at the last line of the example hunk, whose header matches.\<close>

theorem line_numbers_witness:
  "regex_search hunk_header_regex (header_hunk example_hunk) = Some [''10'', ''20''] \<and>
   oldLineNum (calculateLineNumbers example_hunk ! 4) = Finite 12 \<and>
   newLineNum (calculateLineNumbers example_hunk ! 4) = Finite 23"
proof -
  have m: "regex_search hunk_header_regex (header_hunk example_hunk) = Some [''10'', ''20'']"
    by (rule example_hunk_header)
  have l: "lines_hunk example_hunk = ['' ctx1'', ''-old1'', ''+new1'', ''+new2'', '' ctx2'']"
    by (simp add: example_hunk_def)
  have p: "decimal_value ''10'' = 10" "decimal_value ''20'' = 20"
    by (simp_all add: decimal_value_def digit_val_def)
  have len: "4 < length (lines_hunk example_hunk)"
    by (simp add: l)
  have bound: "decimal_value ''10'' + 4 < 2 ^ 53" "decimal_value ''20'' + 4 < 2 ^ 53"
    by (simp_all add: p)
  from line_numbers [of example_hunk "''10''" "''20''"] m len bound
  have "oldLineNum (calculateLineNumbers example_hunk ! 4) =
          Finite (decimal_value ''10'' +
            length (filter (\<lambda>l. \<not> startsWith l ''+'') (take 4 (lines_hunk example_hunk))))"
    and "newLineNum (calculateLineNumbers example_hunk ! 4) =
          Finite (decimal_value ''20'' +
            length (filter (\<lambda>l. \<not> startsWith l ''-'') (take 4 (lines_hunk example_hunk))))"
    by blast+
  then show ?thesis
    using m by (simp add: l p startsWith_def)
qed

text \<open>The removed line of the example does not get the pair (11,20): the pair computed for
  it is (11,21), the first context line having advanced the new counter, and the columns
  show 11 and nothing. And a counter does not advance on every line of its side: in a hunk
  whose old side starts at \<open>2^53\<close>, the second context line has the old number of the
  first.\<close>

theorem line_numbers_counterexample:
  "calculateLineNumbers example_hunk ! 1 = \<lparr>oldLineNum = Finite 11, newLineNum = Finite 21\<rparr> \<and>
   calculateLineNumbers example_hunk ! 1 \<noteq> \<lparr>oldLineNum = Finite 11, newLineNum = Finite 20\<rparr> \<and>
   shown_numbers example_hunk ! 1 = (Some (Finite 11), None) \<and>
   oldLineNum (calculateLineNumbers large_hunk ! 0) = Finite 9007199254740992 \<and>
   oldLineNum (calculateLineNumbers large_hunk ! 1) = Finite 9007199254740992"
  unfolding example_hunk_numbers example_hunk_shown large_hunk_numbers by simp

section \<open>Properties of the rendering\<close>

lemma scenario_document_value:
  "scenario_document =
     [\<lparr>id_file = ''file-1'', header_file = ''diff --git a/a.ts b/a.ts'', path = ''a.ts'',
       hunks = [\<lparr>id_hunk = ''hunk-1'', header_hunk = ''@@ -1,3 +1,3 @@'',
                  lines_hunk = ['' a'', ''-b'', ''+c''], selected_hunk = False\<rparr>,
                \<lparr>id_hunk = ''hunk-2'', header_hunk = ''@@ -10,2 +10,2 @@'',
                  lines_hunk = [''-d'', ''+e''], selected_hunk = True\<rparr>],
       selected_file = False\<rparr>,
      \<lparr>id_file = ''file-2'', header_file = ''diff --git a/b.ts b/b.ts'', path = ''b.ts'',
       hunks = [\<lparr>id_hunk = ''hunk-3'', header_hunk = ''@@ -1,4 +1,4 @@'',
                  lines_hunk = ['' x'', ''-y'', ''+z'', '' w''], selected_hunk = True\<rparr>],
       selected_file = True\<rparr>]"
  unfolding scenario_document_def by code_simp

lemma scenario_selectedFiles:
  "selectedFiles scenario_document =
     [\<lparr>id_file = ''file-1'', header_file = ''diff --git a/a.ts b/a.ts'', path = ''a.ts'',
       hunks = [\<lparr>id_hunk = ''hunk-2'', header_hunk = ''@@ -10,2 +10,2 @@'',
                  lines_hunk = [''-d'', ''+e''], selected_hunk = True\<rparr>],
       selected_file = False\<rparr>,
      \<lparr>id_file = ''file-2'', header_file = ''diff --git a/b.ts b/b.ts'', path = ''b.ts'',
       hunks = [\<lparr>id_hunk = ''hunk-3'', header_hunk = ''@@ -1,4 +1,4 @@'',
                  lines_hunk = ['' x'', ''-y'', ''+z'', '' w''], selected_hunk = True\<rparr>],
       selected_file = True\<rparr>]"
  unfolding scenario_document_value by (simp add: selectedFiles_def)

lemma header_10_10:
  "regex_search hunk_header_regex ''@@ -10,2 +10,2 @@'' = Some [''10'', ''10'']"
  by code_simp

lemma header_1_1:
  "regex_search hunk_header_regex ''@@ -1,4 +1,4 @@'' = Some [''1'', ''1'']"
  by code_simp

lemma downloadAsImage_state:
  "snd (downloadAsImage page st) = st\<lparr>isGeneratingImage := False\<rparr>"
  by (simp add: downloadAsImage_def Let_def split: option.splits)

lemma downloadAsImage_output:
  "fst (downloadAsImage page st) =
     (case container page of
        None \<Rightarrow> None
      | Some w \<Rightarrow>
          if selectedFiles (parsedDiff st) = [] \<or> \<not> context2d page then None
          else Some \<lparr>width = w, height = totalHeight (fontSize st) (selectedFiles (parsedDiff st)),
                     texts = fst (paint_files (showLineNumbers st) (fontSize st)
                                    (length (selectedFiles (parsedDiff st))) 0
                                    (selectedFiles (parsedDiff st)) 10)\<rparr>)"
  by (simp add: downloadAsImage_def Let_def split: option.splits)

lemma downloadAsImage_size:
  "map_option height (fst (downloadAsImage page st)) =
     (case container page of
        None \<Rightarrow> None
      | Some w \<Rightarrow>
          if selectedFiles (parsedDiff st) = [] \<or> \<not> context2d page then None
          else Some (totalHeight (fontSize st) (selectedFiles (parsedDiff st))))"
  "map_option width (fst (downloadAsImage page st)) =
     (case container page of
        None \<Rightarrow> None
      | Some w \<Rightarrow>
          if selectedFiles (parsedDiff st) = [] \<or> \<not> context2d page then None else Some w)"
  by (simp_all add: downloadAsImage_output split: option.splits)

subsection \<open>Filtering\<close>

lemma selectedFiles_alt:
  "selectedFiles d =
     map (\<lambda>file. file\<lparr>hunks := filter selected_hunk (hunks file)\<rparr>)
       (filter (\<lambda>file. \<exists>h\<in>set (hunks file). selected_hunk h) d)"
  by (induction d) (auto simp: selectedFiles_def list_ex_iff filter_empty_conv)

lemma selectedFiles_empty_iff:
  "selectedFiles d = [] \<longleftrightarrow> \<not> (\<exists>file\<in>set d. \<exists>h\<in>set (hunks file). selected_hunk h)"
  by (simp add: selectedFiles_alt filter_empty_conv)

subsection \<open>What is painted\<close>

lemma paint_lines_texts:
  "map painted_of (fst (paint_lines sn fs nums k ls y)) =
     concat (map (\<lambda>(i, line).
                    (if sn \<and> i < length nums \<and> \<not> startsWith line ''+''
                     then [Number (oldLineNum (nums ! i))] else []) @
                    (if sn \<and> i < length nums \<and> \<not> startsWith line ''-''
                     then [Number (newLineNum (nums ! i))] else []) @
                    [Text (getLinePrefix line), Text (lineContent line)])
                 (enumerate k ls))"
  by (induction ls arbitrary: k y) (simp_all add: Let_def)

lemma number_texts_shown:
  assumes "i < length (lines_hunk hunk)"
  shows "number_texts sn (shown_numbers hunk ! i) =
     (if sn \<and> i < length (calculateLineNumbers hunk) \<and> \<not> startsWith (lines_hunk hunk ! i) ''+''
      then [Number (oldLineNum (calculateLineNumbers hunk ! i))] else []) @
     (if sn \<and> i < length (calculateLineNumbers hunk) \<and> \<not> startsWith (lines_hunk hunk ! i) ''-''
      then [Number (newLineNum (calculateLineNumbers hunk ! i))] else [])"
  using assms by (simp add: number_texts_def shown_numbers_def nth_enumerate_eq)

lemma paint_lines_hunk_rows:
  "map painted_of
     (fst (paint_lines sn fs (calculateLineNumbers hunk) 0 (lines_hunk hunk) y)) =
   hunk_rows sn hunk"
proof -
  have "(if sn \<and> i < length (calculateLineNumbers hunk) \<and> \<not> startsWith line ''+''
         then [Number (oldLineNum (calculateLineNumbers hunk ! i))] else []) @
        (if sn \<and> i < length (calculateLineNumbers hunk) \<and> \<not> startsWith line ''-''
         then [Number (newLineNum (calculateLineNumbers hunk ! i))] else []) @
        [Text (getLinePrefix line), Text (lineContent line)] =
        number_texts sn (shown_numbers hunk ! i) @
        [Text (getLinePrefix line), Text (lineContent line)]"
    if "(i, line) \<in> set (enumerate 0 (lines_hunk hunk))" for i line
  proof -
    from that have "i < length (lines_hunk hunk)" and "line = lines_hunk hunk ! i"
      by (simp_all add: in_set_enumerate_eq)
    then show ?thesis
      by (simp add: number_texts_shown)
  qed
  then show ?thesis
    unfolding paint_lines_texts hunk_rows_def
    by (intro arg_cong [of _ _ concat] map_cong refl) auto
qed

lemma paint_hunks_texts:
  "map painted_of (fst (paint_hunks sn fs n k hs y)) =
     concat (map (\<lambda>hunk. Text (header_hunk hunk) # hunk_rows sn hunk) hs)"
  by (induction hs arbitrary: k y) (simp_all add: Let_def paint_lines_hunk_rows)

lemma paint_files_texts:
  "map painted_of (fst (paint_files sn fs n k fl y)) = image_texts sn fl"
  by (induction fl arbitrary: k y) (simp_all add: Let_def paint_hunks_texts image_texts_def)

text \<open>
  Claim C6. The files handed to the painter are computed in three steps: keep the files that
  are selected or have a selected hunk, keep in each of them the selected hunks only, and
  drop the files that are left without a hunk. In effect these are the files with at least
  one selected hunk, each with its selected hunks. When no file is left, the call returns
  without an output and changes nothing in the state but \<^verbatim>\<open>isGeneratingImage\<close>, which it
  sets to false; in no case does the call change the document or its flags. When the page
  has the container and gives a context, the call returns a canvas exactly when some hunk of
  the document is selected, and what is written on that canvas is, in reading order, the
  path of each file that the three steps leave and, under it, the header and the lines of
  each hunk they leave in it: nothing of any other file or hunk.
\<close>

theorem render_filtering:
  "selectedFiles d =
     filter (\<lambda>file. hunks file \<noteq> [])
       (map (\<lambda>file. file\<lparr>hunks := filter selected_hunk (hunks file)\<rparr>)
          (filter (\<lambda>file. selected_file file \<or> (\<exists>h\<in>set (hunks file). selected_hunk h)) d)) \<and>
   selectedFiles d =
     map (\<lambda>file. file\<lparr>hunks := filter selected_hunk (hunks file)\<rparr>)
       (filter (\<lambda>file. \<exists>h\<in>set (hunks file). selected_hunk h) d) \<and>
   (selectedFiles (parsedDiff st) = [] \<longrightarrow>
      downloadAsImage page st = (None, st\<lparr>isGeneratingImage := False\<rparr>)) \<and>
   parsedDiff (snd (downloadAsImage page st)) = parsedDiff st \<and>
   (container page \<noteq> None \<and> context2d page \<longrightarrow>
      (fst (downloadAsImage page st) \<noteq> None \<longleftrightarrow>
         (\<exists>file\<in>set (parsedDiff st). \<exists>h\<in>set (hunks file). selected_hunk h))) \<and>
   (\<forall>canvas. fst (downloadAsImage page st) = Some canvas \<longrightarrow>
      map painted_of (texts canvas) =
        image_texts (showLineNumbers st)
          (filter (\<lambda>file. hunks file \<noteq> [])
             (map (\<lambda>file. file\<lparr>hunks := filter selected_hunk (hunks file)\<rparr>)
                (filter (\<lambda>file. selected_file file \<or> (\<exists>h\<in>set (hunks file). selected_hunk h))
                   (parsedDiff st)))))"
proof (intro conjI impI allI)
  show steps: "selectedFiles d =
     filter (\<lambda>file. hunks file \<noteq> [])
       (map (\<lambda>file. file\<lparr>hunks := filter selected_hunk (hunks file)\<rparr>)
          (filter (\<lambda>file. selected_file file \<or> (\<exists>h\<in>set (hunks file). selected_hunk h)) d))" for d
    by (simp add: selectedFiles_def list_ex_iff)
  show "selectedFiles d =
     map (\<lambda>file. file\<lparr>hunks := filter selected_hunk (hunks file)\<rparr>)
       (filter (\<lambda>file. \<exists>h\<in>set (hunks file). selected_hunk h) d)"
    by (rule selectedFiles_alt)
  show "parsedDiff (snd (downloadAsImage page st)) = parsedDiff st"
    by (simp add: downloadAsImage_state)
  show "downloadAsImage page st = (None, st\<lparr>isGeneratingImage := False\<rparr>)"
    if "selectedFiles (parsedDiff st) = []"
    using that by (simp add: downloadAsImage_def split: option.splits)
  show "fst (downloadAsImage page st) \<noteq> None \<longleftrightarrow>
         (\<exists>file\<in>set (parsedDiff st). \<exists>h\<in>set (hunks file). selected_hunk h)"
    if "container page \<noteq> None \<and> context2d page"
    using that selectedFiles_empty_iff [of "parsedDiff st"]
    by (auto simp: downloadAsImage_output split: option.splits)
  show "map painted_of (texts canvas) =
        image_texts (showLineNumbers st)
          (filter (\<lambda>file. hunks file \<noteq> [])
             (map (\<lambda>file. file\<lparr>hunks := filter selected_hunk (hunks file)\<rparr>)
                (filter (\<lambda>file. selected_file file \<or> (\<exists>h\<in>set (hunks file). selected_hunk h))
                   (parsedDiff st))))"
    if "fst (downloadAsImage page st) = Some canvas" for canvas
  proof -
    from that have "texts canvas =
        fst (paint_files (showLineNumbers st) (fontSize st)
               (length (selectedFiles (parsedDiff st))) 0 (selectedFiles (parsedDiff st)) 10)"
      by (auto simp: downloadAsImage_output split: option.splits if_splits)
    then show ?thesis
      by (simp only: paint_files_texts steps [symmetric])
  qed
qed

text \<open>The theorem at a selected file without hunks, which passes the first step and is
  dropped by the last, so that nothing is rendered; and at the example session, where the
  image shows the second hunk of the first file and the hunk of the second file, and
  nothing of the deselected first hunk.\<close>

theorem render_filtering_witness:
  "selectedFiles (selectAll True hunkless_document) = [] \<and>
   downloadAsImage example_page
       \<lparr>parsedDiff = selectAll True hunkless_document, fontSize = 14, showLineNumbers = False,
        isGeneratingImage = True\<rparr> =
     (None, \<lparr>parsedDiff = selectAll True hunkless_document, fontSize = 14,
             showLineNumbers = False, isGeneratingImage = False\<rparr>) \<and>
   map (map id_hunk \<circ> hunks) (selectedFiles scenario_document) = [[''hunk-2''], [''hunk-3'']] \<and>
   map_option (map painted_of \<circ> texts) (fst (downloadAsImage example_page scenario_state)) =
     Some [Text ''a.ts'',
           Text ''@@ -10,2 +10,2 @@'',
           Number (Finite 10), Text ''-'', Text ''d'',
           Number (Finite 10), Text ''+'', Text ''e'',
           Text ''b.ts'',
           Text ''@@ -1,4 +1,4 @@'',
           Number (Finite 1), Number (Finite 1), Text '' '', Text '' x'',
           Number (Finite 2), Text ''-'', Text ''y'',
           Number (Finite 2), Text ''+'', Text ''z'',
           Number (Finite 3), Number (Finite 3), Text '' '', Text '' w'']"
proof -
  have e: "selectedFiles (selectAll True hunkless_document) = []"
    unfolding hunkless_document_value by (simp add: selectedFiles_def selectAll_def)
  have "\<exists>file\<in>set (parsedDiff scenario_state). \<exists>h\<in>set (hunks file). selected_hunk h"
    by (simp add: scenario_state_def scenario_document_value)
  with render_filtering [of scenario_document scenario_state example_page]
  have some: "fst (downloadAsImage example_page scenario_state) \<noteq> None"
    by (simp add: example_page_def)
  then obtain canvas where c: "fst (downloadAsImage example_page scenario_state) = Some canvas"
    by blast
  have n2: "shown_numbers \<lparr>id_hunk = ''hunk-2'', header_hunk = ''@@ -10,2 +10,2 @@'',
                  lines_hunk = [''-d'', ''+e''], selected_hunk = True\<rparr> =
      [(Some (Finite 10), None), (None, Some (Finite 10))]"
    by (simp only: shown_numbers_def calculateLineNumbers_def DiffHunk.select_convs header_10_10,
        simp add: parseInt_def decimal_value_def digit_val_def round_double_exact startsWith_def
          enumerate_eq_zip upt_rec)
  have n3: "shown_numbers \<lparr>id_hunk = ''hunk-3'', header_hunk = ''@@ -1,4 +1,4 @@'',
                  lines_hunk = ['' x'', ''-y'', ''+z'', '' w''], selected_hunk = True\<rparr> =
      [(Some (Finite 1), Some (Finite 1)), (Some (Finite 2), None), (None, Some (Finite 2)),
       (Some (Finite 3), Some (Finite 3))]"
    by (simp only: shown_numbers_def calculateLineNumbers_def DiffHunk.select_convs header_1_1,
        simp add: parseInt_def decimal_value_def digit_val_def round_double_exact startsWith_def
          enumerate_eq_zip upt_rec)
  from render_filtering [of scenario_document scenario_state example_page] c
  have "map painted_of (texts canvas) =
      image_texts (showLineNumbers scenario_state) (selectedFiles (parsedDiff scenario_state))"
    by (simp add: selectedFiles_def list_ex_iff)
  also have "\<dots> =
        [Text ''a.ts'',
           Text ''@@ -10,2 +10,2 @@'',
           Number (Finite 10), Text ''-'', Text ''d'',
           Number (Finite 10), Text ''+'', Text ''e'',
           Text ''b.ts'',
           Text ''@@ -1,4 +1,4 @@'',
           Number (Finite 1), Number (Finite 1), Text '' '', Text '' x'',
           Number (Finite 2), Text ''-'', Text ''y'',
           Number (Finite 2), Text ''+'', Text ''z'',
           Number (Finite 3), Number (Finite 3), Text '' '', Text '' w'']"
    by (simp add: scenario_state_def scenario_selectedFiles image_texts_def hunk_rows_def n2 n3
          number_texts_def getLinePrefix_def lineContent_def startsWith_def enumerate_eq_zip
          upt_rec)
  finally have t: "map_option (map painted_of \<circ> texts)
      (fst (downloadAsImage example_page scenario_state)) =
     Some [Text ''a.ts'',
           Text ''@@ -10,2 +10,2 @@'',
           Number (Finite 10), Text ''-'', Text ''d'',
           Number (Finite 10), Text ''+'', Text ''e'',
           Text ''b.ts'',
           Text ''@@ -1,4 +1,4 @@'',
           Number (Finite 1), Number (Finite 1), Text '' '', Text '' x'',
           Number (Finite 2), Text ''-'', Text ''y'',
           Number (Finite 2), Text ''+'', Text ''z'',
           Number (Finite 3), Number (Finite 3), Text '' '', Text '' w'']"
    by (simp add: c)
  from render_filtering [of "selectAll True hunkless_document"
      "\<lparr>parsedDiff = selectAll True hunkless_document, fontSize = 14, showLineNumbers = False,
        isGeneratingImage = True\<rparr>"
      example_page] e t
  show ?thesis
    by (simp add: scenario_selectedFiles)
qed

subsection \<open>The height of the canvas\<close>

lemma hunks_height_eq:
  "hunkIndex + length hs = n \<Longrightarrow>
   hunks_height fs n hunkIndex hs acc =
     acc + int (length hs) * (fs + 4) +
     int (sum_list (map (\<lambda>hunk. length (lines_hunk hunk)) hs)) * (fs + 2) +
     5 * int (length hs - 1)"
proof (induction hs arbitrary: hunkIndex acc)
  case Nil
  then show ?case by simp
next
  case (Cons h rest)
  define gap :: int where "gap = (if rest = [] then 0 else 5)"
  define acc' where "acc' = acc + (fs + 4) + int (length (lines_hunk h)) * (fs + 2) + gap"
  have idx: "int hunkIndex < int n - 1 \<longleftrightarrow> rest \<noteq> []"
    using Cons.prems by (cases rest) auto
  have step: "hunks_height fs n hunkIndex (h # rest) acc = hunks_height fs n (Suc hunkIndex) rest acc'"
    by (simp add: idx Let_def acc'_def gap_def)
  have "Suc hunkIndex + length rest = n"
    using Cons.prems by simp
  from Cons.IH [OF this, of acc']
  have ih: "hunks_height fs n (Suc hunkIndex) rest acc' =
      acc' + int (length rest) * (fs + 4) +
      int (sum_list (map (\<lambda>hunk. length (lines_hunk hunk)) rest)) * (fs + 2) +
      5 * int (length rest - 1)" .
  have gaps: "gap + 5 * int (length rest - 1) = 5 * int (length (h # rest) - 1)"
    by (cases rest) (simp_all add: gap_def)
  show ?case
    unfolding step ih using gaps by (simp add: acc'_def algebra_simps)
qed

lemma files_height_eq:
  "fileIndex + length fl = n \<Longrightarrow>
   files_height fs n fileIndex fl acc =
     acc + int (length fl) * (fs + 8) + int (hunk_count fl) * (fs + 4) +
     int (line_count fl) * (fs + 2) + 5 * int (hunk_gaps fl) + 10 * int (length fl - 1)"
proof (induction fl arbitrary: fileIndex acc)
  case Nil
  then show ?case by (simp add: hunk_count_def line_count_def hunk_gaps_def)
next
  case (Cons f rest)
  define gap :: int where "gap = (if rest = [] then 0 else 10)"
  define acc' where "acc' =
    acc + (fs + 8) + int (length (hunks f)) * (fs + 4) +
    int (sum_list (map (\<lambda>hunk. length (lines_hunk hunk)) (hunks f))) * (fs + 2) +
    5 * int (length (hunks f) - 1) + gap"
  have idx: "int fileIndex < int n - 1 \<longleftrightarrow> rest \<noteq> []"
    using Cons.prems by (cases rest) auto
  have step: "files_height fs n fileIndex (f # rest) acc = files_height fs n (Suc fileIndex) rest acc'"
    by (simp add: idx Let_def acc'_def gap_def hunks_height_eq)
  have "Suc fileIndex + length rest = n"
    using Cons.prems by simp
  from Cons.IH [OF this, of acc']
  have ih: "files_height fs n (Suc fileIndex) rest acc' =
     acc' + int (length rest) * (fs + 8) + int (hunk_count rest) * (fs + 4) +
     int (line_count rest) * (fs + 2) + 5 * int (hunk_gaps rest) + 10 * int (length rest - 1)" .
  have gaps: "gap + 10 * int (length rest - 1) = 10 * int (length (f # rest) - 1)"
    by (cases rest) (simp_all add: gap_def)
  have counts: "hunk_count (f # rest) = length (hunks f) + hunk_count rest"
    "line_count (f # rest) =
       sum_list (map (\<lambda>hunk. length (lines_hunk hunk)) (hunks f)) + line_count rest"
    "hunk_gaps (f # rest) = (length (hunks f) - 1) + hunk_gaps rest"
    by (simp_all add: hunk_count_def line_count_def hunk_gaps_def)
  show ?case
    unfolding step ih counts using gaps by (simp add: acc'_def algebra_simps)
qed

lemma totalHeight_formula: "totalHeight fs sel = height_formula fs sel"
  by (simp add: totalHeight_def height_formula_def file_gaps_def files_height_eq)

text \<open>
  Claim C7. The height measured by the two nested loops equals the sum of the rows and
  gaps, for every font size and every list of files; in particular the canvas that a
  successful call returns has that height for the filtered selection, which is then not
  empty. A second call in the state the first call leaves returns the same output.
\<close>

theorem canvas_height:
  "totalHeight fs sel = height_formula fs sel \<and>
   (\<forall>canvas. fst (downloadAsImage page st) = Some canvas \<longrightarrow>
      selectedFiles (parsedDiff st) \<noteq> [] \<and>
      height canvas = height_formula (fontSize st) (selectedFiles (parsedDiff st))) \<and>
   fst (downloadAsImage page (snd (downloadAsImage page st))) = fst (downloadAsImage page st)"
  by (auto simp: totalHeight_formula downloadAsImage_output downloadAsImage_state
        split: option.splits if_splits)

text \<open>The theorem at the example session: two file headers, two hunk headers, six lines and
  one gap between files make \<open>20 + 2 * 22 + 2 * 18 + 6 * 16 + 10 = 206\<close>.\<close>

theorem canvas_height_witness:
  "map_option height (fst (downloadAsImage example_page scenario_state)) = Some 206 \<and>
   map_option width (fst (downloadAsImage example_page scenario_state)) = Some 800 \<and>
   height_formula 14 (selectedFiles scenario_document) = 206 \<and>
   map_option height
     (fst (downloadAsImage example_page (snd (downloadAsImage example_page scenario_state)))) =
     Some 206 \<and>
   fst (downloadAsImage example_page (snd (downloadAsImage example_page scenario_state))) =
     fst (downloadAsImage example_page scenario_state)"
proof -
  have st: "parsedDiff scenario_state = scenario_document" "fontSize scenario_state = 14"
    by (simp_all add: scenario_state_def)
  have h: "totalHeight 14 (selectedFiles scenario_document) = 206"
    by (simp add: scenario_selectedFiles totalHeight_def)
  have out: "map_option height (fst (downloadAsImage example_page scenario_state)) = Some 206"
    "map_option width (fst (downloadAsImage example_page scenario_state)) = Some 800"
    unfolding downloadAsImage_size st h
    by (simp_all add: scenario_selectedFiles example_page_def)
  from canvas_height [of 14 "selectedFiles scenario_document" example_page scenario_state] out h
  show ?thesis
    by simp
qed

section \<open>Properties of the parser\<close>

subsection \<open>Lines of the text\<close>

lemma split_lf_nonempty: "split_lf t \<noteq> []"
  by (induction t) (auto split: list.splits)

lemma split_lf_append_LF: "split_lf (a @ LF # b) = split_lf a @ split_lf b"
  by (induction a) (auto split: list.splits simp: split_lf_nonempty)

lemma split_lf_trailing: "split_lf (t @ [LF]) = split_lf t @ [[]]"
  using split_lf_append_LF [of t "[]"] by simp

lemma parse_lines_snoc: "parse_lines (xs @ [l]) = parse_line l (parse_lines xs)"
  by (simp add: parse_lines_def)

lemma content_line_empty: "content_line []"
  by (simp add: content_line_def startsWith_def)

subsection \<open>One step of the scan\<close>

lemma parse_line_file_header:
  "startsWith l ''diff --git'' \<Longrightarrow>
   parse_line l st =
     st\<lparr>diffFiles := push_current st, fileId := fileId st + 1,
        currentFile := Some \<lparr>id_file = ''file-'' @ string_of_nat (fileId st + 1), header_file = l,
                              path = extractFilePath l, hunks = [], selected_file = True\<rparr>\<rparr>"
  by (simp add: parse_line_def)

lemma parse_line_no_file:
  "\<not> startsWith l ''diff --git'' \<Longrightarrow> currentFile st = None \<Longrightarrow> content_line l \<or> parse_line l st = st"
  by (auto simp: parse_line_def content_line_def)

lemma parse_line_metadata:
  "\<not> startsWith l ''diff --git'' \<Longrightarrow> startsWith l ''---'' \<or> startsWith l ''+++'' \<Longrightarrow>
   currentFile st = Some f \<Longrightarrow>
   parse_line l st = st\<lparr>currentFile := Some (f\<lparr>header_file := header_file f @ [LF] @ l\<rparr>)\<rparr>"
  by (simp add: parse_line_def)

lemma parse_line_hunk_header:
  "\<not> startsWith l ''diff --git'' \<Longrightarrow> \<not> (startsWith l ''---'' \<or> startsWith l ''+++'') \<Longrightarrow>
   startsWith l ''@@'' \<Longrightarrow> currentFile st = Some f \<Longrightarrow>
   parse_line l st =
     st\<lparr>hunkId := hunkId st + 1,
        currentHunk := Some (hunkId st + 1),
        store := (store st)(hunkId st + 1 \<mapsto>
          \<lparr>id_hunk = ''hunk-'' @ string_of_nat (hunkId st + 1), header_hunk = l,
           lines_hunk = [], selected_hunk = True\<rparr>),
        currentFile := Some (f\<lparr>hunks := hunks f @ [hunkId st + 1]\<rparr>)\<rparr>"
  by (simp add: parse_line_def)

lemma parse_line_content:
  "content_line l \<Longrightarrow>
   parse_line l st =
     (case currentHunk st of
        None \<Rightarrow> st
      | Some a \<Rightarrow>
          (case store st a of
             None \<Rightarrow> st
           | Some h \<Rightarrow> st\<lparr>store := (store st)(a \<mapsto> h\<lparr>lines_hunk := lines_hunk h @ [l]\<rparr>)\<rparr>))"
  by (simp add: content_line_def parse_line_def)

lemma parse_line_cases:
  obtains (hdr) "startsWith l ''diff --git''"
    | (unchanged) "\<not> startsWith l ''diff --git''" "parse_line l st = st"
    | (meta) f where "\<not> startsWith l ''diff --git''" "startsWith l ''---'' \<or> startsWith l ''+++''"
        "currentFile st = Some f"
    | (hunk) f where "\<not> startsWith l ''diff --git''" "\<not> (startsWith l ''---'' \<or> startsWith l ''+++'')"
        "startsWith l ''@@''" "currentFile st = Some f"
    | (content) "content_line l"
  using parse_line_no_file [of l st] by (cases "currentFile st") (auto simp: content_line_def)

lemma content_line_not_header: "content_line l \<Longrightarrow> \<not> startsWith l ''diff --git''"
  by (simp add: content_line_def)

lemma push_current_store_update:
  "push_current (st\<lparr>store := s\<rparr>) = push_current st"
  by (simp add: push_current_def split: option.splits)

lemma push_current_content:
  "content_line l \<Longrightarrow> push_current (parse_line l st) = push_current st"
  by (simp add: parse_line_content push_current_store_update split: option.splits)

subsection \<open>The invariant of the scan\<close>

lemma parse_inv_init: "parse_inv parse_init"
  by (simp add: parse_inv_def parse_init_def push_current_def all_hunks_def)

lemma parse_inv_step:
  assumes inv: "parse_inv st"
  shows "parse_inv (parse_line l st)"
proof (cases rule: parse_line_cases [where l = l and st = st])
  case hdr
  show ?thesis
    using inv unfolding parse_line_file_header [OF hdr]
    by (simp add: parse_inv_def push_current_def all_hunks_def)
next
  case unchanged
  then show ?thesis using inv by simp
next
  case meta
  show ?thesis
    using inv meta(3) unfolding parse_line_metadata [OF meta]
    by (simp add: parse_inv_def push_current_def all_hunks_def)
next
  case hunk
  show ?thesis
    using inv hunk(4) unfolding parse_line_hunk_header [OF hunk]
    by (auto simp: parse_inv_def push_current_def all_hunks_def list_all_iff)
next
  case content
  show ?thesis
  proof (cases "hunkId st = 0")
    case True
    then have "parse_line l st = st"
      using inv by (simp add: parse_line_content [OF content] parse_inv_def)
    then show ?thesis using inv by simp
  next
    case False
    then have cur: "currentHunk st = Some (hunkId st)"
      using inv by (simp add: parse_inv_def)
    from False inv obtain h where h: "store st (hunkId st) = Some h"
      by (auto simp: parse_inv_def dom_def set_eq_iff)
    have "parse_line l st =
        st\<lparr>store := (store st)(hunkId st \<mapsto> h\<lparr>lines_hunk := lines_hunk h @ [l]\<rparr>)\<rparr>"
      by (simp add: parse_line_content [OF content] cur h)
    then show ?thesis
      using inv h False
      by (auto simp: parse_inv_def push_current_store_update list_all_iff)
  qed
qed

lemma parse_inv_fold: "parse_inv st \<Longrightarrow> parse_inv (fold parse_line ls st)"
  by (induction ls arbitrary: st) (simp_all add: parse_inv_step)

lemma parse_inv_parse_lines: "parse_inv (parse_lines ls)"
  by (simp add: parse_lines_def parse_inv_fold parse_inv_init)

subsection \<open>Files and paths\<close>

lemma paths_step:
  "map path (push_current (parse_line l st)) =
     map path (push_current st) @ (if startsWith l ''diff --git'' then [extractFilePath l] else [])"
proof (cases rule: parse_line_cases [where l = l and st = st])
  case hdr
  then show ?thesis
    by (simp add: parse_line_file_header push_current_def)
next
  case unchanged
  then show ?thesis
    by simp
next
  case (meta f)
  then show ?thesis
    by (simp add: parse_line_metadata [OF meta] push_current_def)
next
  case (hunk f)
  then show ?thesis
    by (simp add: parse_line_hunk_header [OF hunk] push_current_def)
next
  case content
  then show ?thesis
    by (simp add: push_current_content content_line_not_header)
qed

lemma paths_fold:
  "map path (push_current (fold parse_line ls st)) =
     map path (push_current st) @
     map extractFilePath (filter (\<lambda>l. startsWith l ''diff --git'') ls)"
  by (induction ls arbitrary: st) (simp_all add: paths_step)

lemma path_deref_file: "path (deref_file s f) = path f"
  by (simp add: deref_file_def)

lemma parseDiff_paths:
  "map path (parseDiff t) =
     map extractFilePath (filter (\<lambda>l. startsWith l ''diff --git'') (split_lf t))"
  by (simp add: parseDiff_def finish_def parse_lines_def paths_fold comp_def path_deref_file)
    (simp add: parse_init_def push_current_def)

lemma header_line_path:
  "l \<in> set (split_lf t) \<Longrightarrow> startsWith l ''diff --git'' \<Longrightarrow>
   extractFilePath l \<in> set (map path (parseDiff t))"
  by (auto simp: parseDiff_paths)

text \<open>
  Claim C8. \<^verbatim>\<open>parseDiff\<close> has a result for every text: it uses \<^verbatim>\<open>split\<close>,
  \<^verbatim>\<open>startsWith\<close>, \<^verbatim>\<open>match\<close>, \<^verbatim>\<open>push\<close> and string concatenation, none of which
  throws on a string, so the model needs no error value. The document has one file for each
  line that starts with \<^verbatim>\<open>diff --git\<close>; a text without such a line, the empty text among
  them, gives the document without files.
\<close>

theorem parseDiff_no_files:
  "length (parseDiff t) = length (filter (\<lambda>l. startsWith l ''diff --git'') (split_lf t)) \<and>
   ((\<forall>l\<in>set (split_lf t). \<not> startsWith l ''diff --git'') \<longrightarrow> parseDiff t = []) \<and>
   parseDiff [] = []"
proof -
  have len: "length (parseDiff t) = length (filter (\<lambda>l. startsWith l ''diff --git'') (split_lf t))" for t
    using arg_cong [OF parseDiff_paths [of t], of length] by simp
  have "parseDiff t = []" if "\<forall>l\<in>set (split_lf t). \<not> startsWith l ''diff --git''"
  proof -
    from that have "filter (\<lambda>l. startsWith l ''diff --git'') (split_lf t) = []"
      by (simp add: filter_empty_conv)
    with len [of t] show ?thesis by simp
  qed
  moreover have "parseDiff [] = []"
    using len [of "[]"] by (simp add: startsWith_def)
  ultimately show ?thesis
    using len [of t] by blast
qed

text \<open>The theorem at a text with file metadata, a hunk header and a line, but no file
  header.\<close>

theorem parseDiff_no_files_witness:
  "parseDiff ''index 1..2\<newline>--- a/x\<newline>+++ b/x\<newline>@@ -1 +1 @@\<newline>+a\<newline>'' = []"
proof -
  have s: "split_lf ''index 1..2\<newline>--- a/x\<newline>+++ b/x\<newline>@@ -1 +1 @@\<newline>+a\<newline>'' =
      [''index 1..2'', ''--- a/x'', ''+++ b/x'', ''@@ -1 +1 @@'', ''+a'', '''']"
    by code_simp
  from parseDiff_no_files [of "''index 1..2\<newline>--- a/x\<newline>+++ b/x\<newline>@@ -1 +1 @@\<newline>+a\<newline>''"]
  show ?thesis
    unfolding s by (simp add: startsWith_def)
qed

text \<open>
  Claim C4, as amended. The paths of the parsed files are the results of
  \<^verbatim>\<open>extractFilePath\<close> on the lines that start with \<^verbatim>\<open>diff --git\<close>, in the order of these
  lines: a line that does not start with \<^verbatim>\<open>diff --git\<close> makes no file, and every line
  that does makes one. The line \<^verbatim>\<open>diff --git a/src/old.ts b/src/new.ts\<close> gives the path
  \<^verbatim>\<open>src/new.ts\<close>, so a text with this line has a file with this path. A line that the
  regular expression does not match gives the path \<^verbatim>\<open>unknown\<close>.
\<close>

theorem path_extraction:
  "map path (parseDiff t) =
     map extractFilePath (filter (\<lambda>l. startsWith l ''diff --git'') (split_lf t)) \<and>
   extractFilePath ''diff --git a/src/old.ts b/src/new.ts'' = ''src/new.ts'' \<and>
   (''diff --git a/src/old.ts b/src/new.ts'' \<in> set (split_lf t) \<longrightarrow>
      ''src/new.ts'' \<in> set (map path (parseDiff t))) \<and>
   (regex_search diff_git_regex l = None \<longrightarrow> extractFilePath l = ''unknown'')"
proof (intro conjI impI)
  show "map path (parseDiff t) =
     map extractFilePath (filter (\<lambda>l. startsWith l ''diff --git'') (split_lf t))"
    by (rule parseDiff_paths)
  show new: "extractFilePath ''diff --git a/src/old.ts b/src/new.ts'' = ''src/new.ts''"
    by code_simp
  show "''src/new.ts'' \<in> set (map path (parseDiff t))"
    if "''diff --git a/src/old.ts b/src/new.ts'' \<in> set (split_lf t)"
    using header_line_path [OF that] by (simp add: startsWith_def new)
  assume "regex_search diff_git_regex l = None"
  then show "extractFilePath l = ''unknown''"
    by (simp add: extractFilePath_def)
qed

text \<open>The theorem at a text with a matching file header and one without the two
  prefixes.\<close>

theorem path_extraction_witness:
  "map path (parseDiff ''index 1..2\<newline>diff --git a/src/old.ts b/src/new.ts\<newline>@@ -1 +1 @@\<newline>diff --git old new'') =
     [''src/new.ts'', ''unknown''] \<and>
   ''src/new.ts'' \<in> set (map path (parseDiff ''index 1..2\<newline>diff --git a/src/old.ts b/src/new.ts\<newline>@@ -1 +1 @@\<newline>diff --git old new'')) \<and>
   extractFilePath ''diff --git old new'' = ''unknown''"
proof -
  have s: "split_lf ''index 1..2\<newline>diff --git a/src/old.ts b/src/new.ts\<newline>@@ -1 +1 @@\<newline>diff --git old new'' =
      [''index 1..2'', ''diff --git a/src/old.ts b/src/new.ts'', ''@@ -1 +1 @@'', ''diff --git old new'']"
    by code_simp
  have n: "regex_search diff_git_regex ''diff --git old new'' = None"
    by code_simp
  from path_extraction [of "''index 1..2\<newline>diff --git a/src/old.ts b/src/new.ts\<newline>@@ -1 +1 @@\<newline>diff --git old new''"
      "''diff --git old new''"] n
  show ?thesis
    unfolding s by (simp add: startsWith_def)
qed

text \<open>A line outside the shape can make a file: a file header written without the prefixes
  \<^verbatim>\<open>a/\<close> and \<^verbatim>\<open>b/\<close> does not match the regular expression, and it makes a file, whose
  path is \<^verbatim>\<open>unknown\<close>.\<close>

theorem path_extraction_counterexample:
  "regex_search diff_git_regex ''diff --git src/old.ts src/new.ts'' = None \<and>
   map path (parseDiff ''diff --git src/old.ts src/new.ts'') = [''unknown'']"
  by code_simp

subsection \<open>Decimal numerals and ids\<close>

lemma digit_char_inj: "a < 10 \<Longrightarrow> b < 10 \<Longrightarrow> digit_char a = digit_char b \<Longrightarrow> a = b"
proof -
  assume "a < 10" "b < 10" "digit_char a = digit_char b"
  moreover have "distinct ''0123456789''" by simp
  ultimately show "a = b"
    by (simp add: digit_char_def nth_eq_iff_index_eq)
qed

lemma string_of_nat_length: "10 \<le> n \<Longrightarrow> 2 \<le> length (string_of_nat n)"
  by (subst string_of_nat.simps) (simp, subst string_of_nat.simps, simp)

lemma string_of_nat_inj: "string_of_nat n = string_of_nat m \<Longrightarrow> n = m"
proof (induction n arbitrary: m rule: string_of_nat.induct)
  case (1 n)
  show ?case
  proof (cases "n < 10")
    case True
    then have n: "string_of_nat n = [digit_char n]"
      by (subst string_of_nat.simps) simp
    have "length (string_of_nat m) = 1"
      using "1.prems" [symmetric] n by simp
    then have "m < 10"
      using string_of_nat_length [of m] by (cases "m < 10") auto
    then have "string_of_nat m = [digit_char m]"
      by (subst string_of_nat.simps) simp
    with n "1.prems" True \<open>m < 10\<close> show ?thesis
      by (simp add: digit_char_inj)
  next
    case False
    then have n: "string_of_nat n = string_of_nat (n div 10) @ [digit_char (n mod 10)]"
      by (subst string_of_nat.simps) simp
    have "\<not> m < 10"
    proof
      assume "m < 10"
      then have "string_of_nat m = [digit_char m]"
        by (subst string_of_nat.simps) simp
      with "1.prems" string_of_nat_length [of n] False show False by simp
    qed
    then have m: "string_of_nat m = string_of_nat (m div 10) @ [digit_char (m mod 10)]"
      by (subst string_of_nat.simps) simp
    from n m "1.prems" have eq: "string_of_nat (n div 10) = string_of_nat (m div 10)"
      and d: "digit_char (n mod 10) = digit_char (m mod 10)"
      by simp_all
    from "1.IH" [OF False eq] have "n div 10 = m div 10" .
    moreover from d have "n mod 10 = m mod 10"
      by (intro digit_char_inj) simp_all
    ultimately show ?thesis
      by (metis div_mult_mod_eq)
  qed
qed

lemma distinct_numbered: "distinct (map (\<lambda>n. p @ string_of_nat n) ns) \<longleftrightarrow> distinct ns"
  by (simp add: distinct_map inj_on_def string_of_nat_inj)

subsection \<open>The hunks of the finished document\<close>

lemma map_filter_append: "List.map_filter f (xs @ ys) = List.map_filter f xs @ List.map_filter f ys"
  by (simp add: List.map_filter_def)

lemma map_filter_concat: "List.map_filter f (concat xss) = concat (map (List.map_filter f) xss)"
  by (induction xss) (simp_all add: List.map_filter_def)

lemma map_filter_all_defined:
  "set xs \<subseteq> dom f \<Longrightarrow> List.map_filter f xs = map (\<lambda>x. the (f x)) xs"
  by (induction xs) (auto simp: List.map_filter_def)

lemma map_filter_cong_set:
  "(\<And>x. x \<in> set xs \<Longrightarrow> f x = g x) \<Longrightarrow> List.map_filter f xs = List.map_filter g xs"
  by (induction xs) (auto simp: List.map_filter_def)

lemma all_hunks_deref:
  "all_hunks (map (deref_file s) fs) = List.map_filter s (all_hunks fs)"
  by (simp add: all_hunks_def map_filter_concat comp_def deref_file_def)

lemma all_hunks_finish:
  assumes "parse_inv st"
  shows "all_hunks (finish st) = map (\<lambda>a. the (store st a)) [1 ..< Suc (hunkId st)]"
proof -
  have "set [1 ..< Suc (hunkId st)] \<subseteq> dom (store st)"
    using assms by (auto simp: parse_inv_def)
  then show ?thesis
    using assms by (simp add: finish_def all_hunks_deref parse_inv_def map_filter_all_defined)
qed

lemma finish_ids:
  assumes "parse_inv st"
  shows "map id_file (finish st) = map (\<lambda>n. ''file-'' @ string_of_nat n) [1 ..< Suc (fileId st)]"
    and "map id_hunk (all_hunks (finish st)) = map (\<lambda>n. ''hunk-'' @ string_of_nat n) [1 ..< Suc (hunkId st)]"
proof -
  have "map id_file (finish st) = map id_file (push_current st)"
    by (simp add: finish_def deref_file_def comp_def)
  then show "map id_file (finish st) = map (\<lambda>n. ''file-'' @ string_of_nat n) [1 ..< Suc (fileId st)]"
    using assms by (simp add: parse_inv_def)
  have "id_hunk (the (store st a)) = ''hunk-'' @ string_of_nat a" if "a \<in> set [1 ..< Suc (hunkId st)]" for a
    using assms that by (auto simp: parse_inv_def list_all_iff)
  then show "map id_hunk (all_hunks (finish st)) = map (\<lambda>n. ''hunk-'' @ string_of_nat n) [1 ..< Suc (hunkId st)]"
    unfolding all_hunks_finish [OF assms] by simp
qed

text \<open>The ids of a parsed document are pairwise different, and the selection handlers keep
  all ids where they are.\<close>

lemma parseDiff_distinct_ids:
  "distinct (map id_file (parseDiff t))"
  "distinct (map id_hunk (all_hunks (parseDiff t)))"
  "f \<in> set (parseDiff t) \<Longrightarrow> distinct (map id_hunk (hunks f))"
proof -
  have inv: "parse_inv (parse_lines (split_lf t))"
    by (rule parse_inv_parse_lines)
  show "distinct (map id_file (parseDiff t))"
    unfolding parseDiff_def finish_ids(1) [OF inv] by (simp only: distinct_numbered distinct_upt)
  show all: "distinct (map id_hunk (all_hunks (parseDiff t)))"
    unfolding parseDiff_def finish_ids(2) [OF inv] by (simp only: distinct_numbered distinct_upt)
  assume "f \<in> set (parseDiff t)"
  then obtain xs ys where "parseDiff t = xs @ f # ys"
    by (auto simp: in_set_conv_decomp)
  with all show "distinct (map id_hunk (hunks f))"
    by (simp add: all_hunks_def)
qed

lemma selection_keeps_ids:
  "map id_file (toggleFileSelection fid d) = map id_file d"
  "map id_file (toggleHunkSelection fid hid d) = map id_file d"
  "map id_file (selectAll b d) = map id_file d"
  "map (map id_hunk \<circ> hunks) (toggleFileSelection fid d) = map (map id_hunk \<circ> hunks) d"
  "map (map id_hunk \<circ> hunks) (toggleHunkSelection fid hid d) = map (map id_hunk \<circ> hunks) d"
  "map (map id_hunk \<circ> hunks) (selectAll b d) = map (map id_hunk \<circ> hunks) d"
  by (simp_all add: toggleFileSelection_def toggleHunkSelection_def selectAll_def Let_def
        comp_def if_distrib cong: if_cong)

text \<open>So every document of a session has pairwise different file ids and, in each file,
  pairwise different hunk ids.\<close>

lemma apply_action_keeps_ids:
  "map id_file (apply_action a d) = map id_file d"
  "map (map id_hunk \<circ> hunks) (apply_action a d) = map (map id_hunk \<circ> hunks) d"
  by (cases a; simp add: selection_keeps_ids)+

lemma session_keeps_ids:
  "map id_file (fold apply_action acts d) = map id_file d"
  "map (map id_hunk \<circ> hunks) (fold apply_action acts d) = map (map id_hunk \<circ> hunks) d"
  by (induction acts arbitrary: d) (simp_all add: apply_action_keeps_ids)

lemma session_distinct_ids:
  "distinct (map id_file (fold apply_action acts (parseDiff t)))"
  "i < length (fold apply_action acts (parseDiff t)) \<Longrightarrow>
   distinct (map id_hunk (hunks (fold apply_action acts (parseDiff t) ! i)))"
proof -
  let ?d = "fold apply_action acts (parseDiff t)"
  show "distinct (map id_file ?d)"
    by (simp add: session_keeps_ids parseDiff_distinct_ids)
  assume i: "i < length ?d"
  have len: "length ?d = length (parseDiff t)"
    using arg_cong [OF session_keeps_ids(1) [of acts "parseDiff t"], of length] by simp
  have "map (map id_hunk \<circ> hunks) ?d ! i = map (map id_hunk \<circ> hunks) (parseDiff t) ! i"
    by (simp only: session_keeps_ids)
  then have "map id_hunk (hunks (?d ! i)) = map id_hunk (hunks (parseDiff t ! i))"
    using i len by simp
  moreover have "parseDiff t ! i \<in> set (parseDiff t)"
    using i len by simp
  then have "distinct (map id_hunk (hunks (parseDiff t ! i)))"
    by (rule parseDiff_distinct_ids(3))
  ultimately show "distinct (map id_hunk (hunks (?d ! i)))"
    by simp
qed

subsection \<open>Content lines\<close>

lemma no_hunk_yet:
  assumes "parse_inv st"
  shows "all_hunks (finish st) = [] \<longleftrightarrow> currentHunk st = None"
  using assms unfolding all_hunks_finish [OF assms] by (simp add: parse_inv_def)

lemma content_line_dropped:
  assumes "content_line l" and "all_hunks (finish (parse_lines ls)) = []"
  shows "parse_lines (ls @ l # rest) = parse_lines (ls @ rest)"
proof -
  have "currentHunk (parse_lines ls) = None"
    using assms(2) no_hunk_yet [OF parse_inv_parse_lines] by simp
  then have "parse_line l (parse_lines ls) = parse_lines ls"
    by (simp add: parse_line_content [OF assms(1)])
  then show ?thesis
    by (simp add: parse_lines_def)
qed

lemma deref_file_other:
  assumes "a \<notin> set (hunks f)"
  shows "deref_file (s(a \<mapsto> h)) f = deref_file s f"
proof -
  have "List.map_filter (s(a \<mapsto> h)) (hunks f) = List.map_filter s (hunks f)"
    using assms by (intro map_filter_cong_set) auto
  then show ?thesis
    by (simp add: deref_file_def)
qed

lemma content_line_appended:
  assumes c: "content_line l"
    and ne: "finish (parse_lines ls) \<noteq> []"
    and hs: "hunks (last (finish (parse_lines ls))) \<noteq> []"
  shows "finish (parse_lines (ls @ [l])) =
           (let D = finish (parse_lines ls); H = hunks (last D)
            in butlast D @
               [(last D)\<lparr>hunks := butlast H @ [(last H)\<lparr>lines_hunk := lines_hunk (last H) @ [l]\<rparr>]\<rparr>])"
proof -
  define st where "st = parse_lines ls"
  define s where "s = store st"
  define n where "n = hunkId st"
  have inv: "parse_inv st"
    unfolding st_def by (rule parse_inv_parse_lines)
  from ne obtain fs f where pc: "push_current st = fs @ [f]"
    unfolding st_def [symmetric] finish_def by (cases "push_current st" rule: rev_cases) auto
  have refs: "all_hunks fs @ hunks f = [1 ..< Suc n]"
    using inv pc by (simp add: parse_inv_def all_hunks_def n_def)
  have dom: "dom s = {1 .. n}"
    using inv by (simp add: parse_inv_def s_def n_def)
  have last_D: "last (finish st) = deref_file s f" and butlast_D: "butlast (finish st) = map (deref_file s) fs"
    by (simp_all add: finish_def pc s_def)
  have "hunks f \<noteq> []"
    using hs unfolding st_def [symmetric] last_D by (auto simp: deref_file_def List.map_filter_def)
  then obtain rs r where f: "hunks f = rs @ [r]"
    by (cases "hunks f" rule: rev_cases) auto
  have "0 < n"
    using refs f by (cases n) auto
  then have upt: "[1 ..< Suc n] = [1 ..< n] @ [n]"
    by simp
  from refs have r: "r = n" and rest: "all_hunks fs @ rs = [1 ..< n]"
    unfolding f upt by simp_all
  have "set (all_hunks fs) \<union> set rs = {1 ..< n}"
    using arg_cong [OF rest, of set] by simp
  then have below: "set (all_hunks fs) \<subseteq> {1 ..< n}" "set rs \<subseteq> {1 ..< n}"
    by blast+
  then have fresh: "n \<notin> set (all_hunks fs)" "n \<notin> set rs"
    by auto
  have rs_dom: "set rs \<subseteq> dom s"
    using below(2) dom by auto
  have "n \<in> dom s"
    using \<open>0 < n\<close> dom by simp
  then obtain h where h: "s n = Some h"
    by blast
  have cur: "currentHunk st = Some n"
    using inv \<open>0 < n\<close> by (simp add: parse_inv_def n_def)
  define h' where "h' = h\<lparr>lines_hunk := lines_hunk h @ [l]\<rparr>"
  have step: "parse_line l st = st\<lparr>store := s(n \<mapsto> h')\<rparr>"
    using cur h by (simp add: parse_line_content [OF c] s_def h'_def)
  have whole: "finish (parse_line l st) = map (deref_file (s(n \<mapsto> h'))) fs @ [deref_file (s(n \<mapsto> h')) f]"
    by (simp add: step finish_def push_current_store_update pc)
  have others: "map (deref_file (s(n \<mapsto> h'))) fs = map (deref_file s) fs"
    using fresh(1) by (intro map_cong refl deref_file_other) (auto simp: all_hunks_def)
  have H: "hunks (deref_file s f) = List.map_filter s rs @ [h]"
    by (simp add: deref_file_def f r h List.map_filter_def)
  have "List.map_filter (s(n \<mapsto> h')) rs = List.map_filter s rs"
    using fresh(2) by (intro map_filter_cong_set) auto
  then have "deref_file (s(n \<mapsto> h')) f = (deref_file s f)\<lparr>hunks := List.map_filter s rs @ [h']\<rparr>"
    by (simp add: deref_file_def f r map_filter_append List.map_filter_def)
  with whole others have "finish (parse_line l st) =
      map (deref_file s) fs @ [(deref_file s f)\<lparr>hunks := List.map_filter s rs @ [h']\<rparr>]"
    by simp
  then show ?thesis
    unfolding parse_lines_snoc st_def [symmetric] Let_def last_D butlast_D H
    by (simp add: h'_def)
qed

text \<open>
  Claim C3, as amended. A content line met before any hunk has been opened is dropped: the
  document is the one of the text without that line. For a text that ends in a line feed,
  the last piece of the split is the empty string, which is a content line: it is dropped
  when the document of the text before the line feed has no hunk, and when the last file of
  that document has a hunk, it is appended to the lines of the last hunk of that file.
\<close>

theorem content_lines:
  "(content_line l \<and> all_hunks (finish (parse_lines ls)) = [] \<longrightarrow>
      finish (parse_lines (ls @ l # rest)) = finish (parse_lines (ls @ rest))) \<and>
   (all_hunks (parseDiff t) = [] \<longrightarrow> parseDiff (t @ [LF]) = parseDiff t) \<and>
   (parseDiff t \<noteq> [] \<and> hunks (last (parseDiff t)) \<noteq> [] \<longrightarrow>
      parseDiff (t @ [LF]) =
        (let D = parseDiff t; H = hunks (last D)
         in butlast D @
            [(last D)\<lparr>hunks := butlast H @ [(last H)\<lparr>lines_hunk := lines_hunk (last H) @ [[]]\<rparr>]\<rparr>]))"
proof (intro conjI impI)
  assume "content_line l \<and> all_hunks (finish (parse_lines ls)) = []"
  then show "finish (parse_lines (ls @ l # rest)) = finish (parse_lines (ls @ rest))"
    by (simp add: content_line_dropped)
next
  assume "all_hunks (parseDiff t) = []"
  then have "parse_lines (split_lf t @ [] # []) = parse_lines (split_lf t @ [])"
    unfolding parseDiff_def by (intro content_line_dropped content_line_empty)
  then show "parseDiff (t @ [LF]) = parseDiff t"
    by (simp add: parseDiff_def split_lf_trailing)
next
  assume "parseDiff t \<noteq> [] \<and> hunks (last (parseDiff t)) \<noteq> []"
  then show "parseDiff (t @ [LF]) =
        (let D = parseDiff t; H = hunks (last D)
         in butlast D @
            [(last D)\<lparr>hunks := butlast H @ [(last H)\<lparr>lines_hunk := lines_hunk (last H) @ [[]]\<rparr>]\<rparr>])"
    unfolding parseDiff_def split_lf_trailing
    by (intro content_line_appended content_line_empty) simp_all
qed

text \<open>The theorem at a content line before any hunk, at a text without a hunk and at a text
  whose only file has a hunk.\<close>

theorem content_lines_witness:
  "finish (parse_lines ([''index 1..2''] @ ''stray'' # [''diff --git a/x b/x''])) =
     finish (parse_lines ([''index 1..2''] @ [''diff --git a/x b/x''])) \<and>
   parseDiff (''stray\<newline>diff --git a/x b/x\<newline>index 1..2'' @ [LF]) =
     parseDiff ''stray\<newline>diff --git a/x b/x\<newline>index 1..2'' \<and>
   parseDiff (''diff --git a/x b/x\<newline>@@ -1 +1 @@\<newline>+a'' @ [LF]) =
     [\<lparr>id_file = ''file-1'', header_file = ''diff --git a/x b/x'', path = ''x'',
       hunks = [\<lparr>id_hunk = ''hunk-1'', header_hunk = ''@@ -1 +1 @@'', lines_hunk = [''+a'', ''''],
                  selected_hunk = True\<rparr>],
       selected_file = True\<rparr>]"
proof -
  have c: "content_line ''stray''"
    by (simp add: content_line_def startsWith_def)
  have v0: "finish (parse_lines [''index 1..2'']) = []"
    by code_simp
  have v1: "parseDiff ''stray\<newline>diff --git a/x b/x\<newline>index 1..2'' =
      [\<lparr>id_file = ''file-1'', header_file = ''diff --git a/x b/x'', path = ''x'', hunks = [],
        selected_file = True\<rparr>]"
    by code_simp
  have v2: "parseDiff ''diff --git a/x b/x\<newline>@@ -1 +1 @@\<newline>+a'' =
     [\<lparr>id_file = ''file-1'', header_file = ''diff --git a/x b/x'', path = ''x'',
       hunks = [\<lparr>id_hunk = ''hunk-1'', header_hunk = ''@@ -1 +1 @@'', lines_hunk = [''+a''],
                  selected_hunk = True\<rparr>],
       selected_file = True\<rparr>]"
    by code_simp
  from content_lines [of "''stray''" "[''index 1..2'']" "[''diff --git a/x b/x'']"
      "''stray\<newline>diff --git a/x b/x\<newline>index 1..2''"] c
  have "finish (parse_lines ([''index 1..2''] @ ''stray'' # [''diff --git a/x b/x''])) =
     finish (parse_lines ([''index 1..2''] @ [''diff --git a/x b/x''])) \<and>
   parseDiff (''stray\<newline>diff --git a/x b/x\<newline>index 1..2'' @ [LF]) =
     parseDiff ''stray\<newline>diff --git a/x b/x\<newline>index 1..2''"
    unfolding v0 v1 by (simp add: all_hunks_def)
  moreover
  from content_lines [of "[]" "[]" "[]" "''diff --git a/x b/x\<newline>@@ -1 +1 @@\<newline>+a''"]
  have "parseDiff (''diff --git a/x b/x\<newline>@@ -1 +1 @@\<newline>+a'' @ [LF]) =
     [\<lparr>id_file = ''file-1'', header_file = ''diff --git a/x b/x'', path = ''x'',
       hunks = [\<lparr>id_hunk = ''hunk-1'', header_hunk = ''@@ -1 +1 @@'', lines_hunk = [''+a'', ''''],
                  selected_hunk = True\<rparr>],
       selected_file = True\<rparr>]"
    unfolding v2 by simp
  ultimately show ?thesis by simp
qed

text \<open>The last empty piece is not always dropped: for an ordinary diff that ends in a line
  feed, the empty string after the last line feed is the last line of the hunk.\<close>

theorem content_lines_counterexample:
  "map lines_hunk (all_hunks (parseDiff ''diff --git a/x b/x\<newline>--- a/x\<newline>+++ b/x\<newline>@@ -1 +1 @@\<newline>-a\<newline>+b\<newline>'')) =
     [[''-a'', ''+b'', '''']]"
  by code_simp

text \<open>The cursor \<^verbatim>\<open>currentHunk\<close> outlives its file: a content line between the header of a
  later file and that file's first hunk header is appended to the last hunk of the file
  before.\<close>

lemma stale_hunk_example:
  "parseDiff ''diff --git a/x b/x\<newline>@@ -1 +1 @@\<newline>+a\<newline>diff --git a/y b/y\<newline>index 1..2'' =
     [\<lparr>id_file = ''file-1'', header_file = ''diff --git a/x b/x'', path = ''x'',
       hunks = [\<lparr>id_hunk = ''hunk-1'', header_hunk = ''@@ -1 +1 @@'',
                  lines_hunk = [''+a'', ''index 1..2''], selected_hunk = True\<rparr>],
       selected_file = True\<rparr>,
      \<lparr>id_file = ''file-2'', header_file = ''diff --git a/y b/y'', path = ''y'', hunks = [],
       selected_file = True\<rparr>]"
  by code_simp

end
